theory Spec2Isabelle
  imports Complex_Main
begin

chapter \<open>Audit-log analysis: tokenizer, timestamps, grouping, classification, aggregation\<close>

text \<open>
  A shallow embedding of \<^verbatim>\<open>src/parser.ts\<close> (\<^verbatim>\<open>parseCsvLine\<close>, \<^verbatim>\<open>parseTimestamp\<close>,
  \<^verbatim>\<open>processLogFile\<close>), of the \<^verbatim>\<open>Run\<close> type of \<^verbatim>\<open>src/Audit-log.ts\<close> and of the
  memoised aggregates of the dashboard page (\<^verbatim>\<open>finalFilteredRuns\<close>,
  \<^verbatim>\<open>companyCodeBreakdown\<close>, \<^verbatim>\<open>requestTypeBreakdown\<close>, \<^verbatim>\<open>avgProcessingTime\<close>).

  Conventions of the embedding.
  \<^item> A JavaScript string is a \<^typ>\<open>string\<close>; a character stands for one code unit in the
    range 0..255 (Latin-1), so the white space of \<^verbatim>\<open>trim\<close> and \<^verbatim>\<open>\s\<close> is the set
    TAB, LF, VT, FF, CR, SP, NBSP.
  \<^item> A \<^verbatim>\<open>Date\<close> is its time value, an \<^typ>\<open>int\<close> of milliseconds since
    1970-01-01T00:00:00Z; \<^verbatim>\<open>Date | null\<close> and \<^verbatim>\<open>Date | undefined\<close> are
    \<^typ>\<open>int option\<close>; a \<^verbatim>\<open>NaN\<close> number is \<^const>\<open>None\<close>.
  \<^item> The insertion-ordered \<^verbatim>\<open>Map\<close> of groups is an association list in insertion order.
  \<^item> An exception that leaves a function uncaught is a value of its result type.
\<close>

section \<open>Characters and string primitives\<close>

definition dquote :: char where
  "dquote = CHR 0x22"

definition comma :: char where
  "comma = CHR 0x2C"

definition dot :: char where
  "dot = CHR 0x2E"

definition isWhiteSpace :: "char \<Rightarrow> bool" where
  "isWhiteSpace c =
     (c \<in> set [CHR 0x09, CHR 0x0A, CHR 0x0B, CHR 0x0C, CHR 0x0D, CHR 0x20, CHR 0xA0])"

definition isDigit :: "char \<Rightarrow> bool" where
  "isDigit c = (48 \<le> (of_char c :: nat) \<and> (of_char c :: nat) \<le> 57)"

definition isAsciiLetter :: "char \<Rightarrow> bool" where
  "isAsciiLetter c =
     (let n = (of_char c :: nat) in (65 \<le> n \<and> n \<le> 90) \<or> (97 \<le> n \<and> n \<le> 122))"

text \<open>\<^verbatim>\<open>String.prototype.toLowerCase\<close> and \<^verbatim>\<open>toUpperCase\<close> on one Latin-1 code unit.
  The upper-case forms of \<^verbatim>\<open>0xB5\<close>, \<^verbatim>\<open>0xDF\<close> and \<^verbatim>\<open>0xFF\<close> lie outside Latin-1;
  the program upper-cases only strings of ASCII letters (the captured request type).\<close>

definition toLowerChar :: "char \<Rightarrow> char" where
  "toLowerChar c =
     (let n = (of_char c :: nat) in
      if (65 \<le> n \<and> n \<le> 90) \<or> (192 \<le> n \<and> n \<le> 222 \<and> n \<noteq> 215)
      then char_of (n + 32) else c)"

definition toUpperChar :: "char \<Rightarrow> char" where
  "toUpperChar c =
     (let n = (of_char c :: nat) in
      if (97 \<le> n \<and> n \<le> 122) \<or> (224 \<le> n \<and> n \<le> 254 \<and> n \<noteq> 247)
      then char_of (n - 32) else c)"

definition toLowerCase :: "string \<Rightarrow> string" where
  "toLowerCase s = map toLowerChar s"

definition toUpperCase :: "string \<Rightarrow> string" where
  "toUpperCase s = map toUpperChar s"

definition trim :: "string \<Rightarrow> string" where
  "trim s = rev (dropWhile isWhiteSpace (rev (dropWhile isWhiteSpace s)))"

definition startsWith :: "string \<Rightarrow> string \<Rightarrow> bool" where
  "startsWith s p = (take (length p) s = p)"

definition endsWith :: "string \<Rightarrow> string \<Rightarrow> bool" where
  "endsWith s p = (length p \<le> length s \<and> drop (length s - length p) s = p)"

fun includes_str :: "string \<Rightarrow> string \<Rightarrow> bool" where
  "includes_str [] p = (p = [])"
| "includes_str (c # cs) p = (startsWith (c # cs) p \<or> includes_str cs p)"

text \<open>\<^verbatim>\<open>s.substring(a, b)\<close> for non-negative arguments: both are clamped to the length
  and swapped when \<^verbatim>\<open>a > b\<close>.\<close>

definition substring :: "string \<Rightarrow> nat \<Rightarrow> nat \<Rightarrow> string" where
  "substring s a b =
     (let a' = min a (length s); b' = min b (length s);
          lo = min a' b'; hi = max a' b'
      in take (hi - lo) (drop lo s))"

definition padEnd :: "string \<Rightarrow> nat \<Rightarrow> char \<Rightarrow> string" where
  "padEnd s n c = s @ replicate (n - length s) c"

fun consHead :: "char \<Rightarrow> string list \<Rightarrow> string list" where
  "consHead c [] = [[c]]"
| "consHead c (f # fs) = (c # f) # fs"

text \<open>\<^verbatim>\<open>s.split(d)\<close> for a one-character separator string.\<close>

fun splitOn :: "char \<Rightarrow> string \<Rightarrow> string list" where
  "splitOn d [] = [[]]"
| "splitOn d (c # cs) = (if c = d then [] # splitOn d cs else consHead c (splitOn d cs))"

text \<open>\<^verbatim>\<open>s.replace(/""/g, '"')\<close>: non-overlapping pairs of quotes, left to right.\<close>

fun replaceDoubledQuotes :: "string \<Rightarrow> string" where
  "replaceDoubledQuotes (a # b # cs) =
     (if a = dquote \<and> b = dquote then dquote # replaceDoubledQuotes cs
      else a # replaceDoubledQuotes (b # cs))"
| "replaceDoubledQuotes cs = cs"

section \<open>Field tokenizer: \<^verbatim>\<open>parseCsvLine\<close>\<close>

text \<open>
  \<^verbatim>\<open>line.split(/,(?=(?:(?:[^"]*"){2})*[^"]*$)/)\<close>: the look-ahead succeeds at a comma
  exactly when the rest of the line, up to its end, holds an even number of quote
  characters. Every match is the single comma, so the pieces are the maximal stretches
  between matching commas.
\<close>

fun csvSplit :: "string \<Rightarrow> string list" where
  "csvSplit [] = [[]]"
| "csvSplit (c # cs) =
     (if c = comma \<and> even (count_list cs dquote) then [] # csvSplit cs
      else consHead c (csvSplit cs))"

definition cleanField :: "string \<Rightarrow> string" where
  "cleanField field =
     (let cleanedField = trim field in
      if startsWith cleanedField [dquote] \<and> endsWith cleanedField [dquote]
      then replaceDoubledQuotes (substring cleanedField 1 (length cleanedField - 1))
      else cleanedField)"

definition parseCsvLine :: "string \<Rightarrow> string list" where
  "parseCsvLine line = map cleanField (csvSplit line)"

section \<open>Timestamp normalizer: \<^verbatim>\<open>parseTimestamp\<close>\<close>

definition digitsValue :: "string \<Rightarrow> int" where
  "digitsValue s = foldl (\<lambda>acc c. 10 * acc + ((of_char c :: int) - 48)) 0 s"

text \<open>\<^verbatim>\<open>parseInt(s, 10)\<close>: leading white space, an optional sign, then the longest
  run of decimal digits; \<^verbatim>\<open>NaN\<close> (here \<^const>\<open>None\<close>) when that run is empty.\<close>

definition parseInt10 :: "string \<Rightarrow> int option" where
  "parseInt10 s =
     (let t = dropWhile isWhiteSpace s;
          sgn = (case t of [] \<Rightarrow> 1 | c # _ \<Rightarrow> if c = CHR ''-'' then - 1 else (1::int));
          u = (case t of [] \<Rightarrow> [] | c # r \<Rightarrow> if c = CHR ''-'' \<or> c = CHR ''+'' then r else t);
          z = takeWhile isDigit u
      in if z = [] then None else Some (sgn * digitsValue z))"

subsection \<open>The time-value arithmetic of \<^verbatim>\<open>Date.UTC\<close> (ECMA-262, Date objects)\<close>

definition DayFromYear :: "int \<Rightarrow> int" where
  "DayFromYear y =
     365 * (y - 1970) + (y - 1969) div 4 - (y - 1901) div 100 + (y - 1601) div 400"

definition InLeapYear :: "int \<Rightarrow> int" where
  "InLeapYear y =
     (if y mod 4 \<noteq> 0 then 0 else if y mod 100 \<noteq> 0 then 1 else if y mod 400 \<noteq> 0 then 0 else 1)"

text \<open>The day within the year on which month \<open>mn\<close> (0 = January) begins, read off the
  thresholds of \<^verbatim>\<open>MonthFromTime\<close>.\<close>

definition monthStartDay :: "int \<Rightarrow> int \<Rightarrow> int" where
  "monthStartDay y mn =
     (if mn = 0 then 0 else if mn = 1 then 31
      else [59, 90, 120, 151, 181, 212, 243, 273, 304, 334] ! nat (mn - 2) + InLeapYear y)"

definition MakeDay :: "int \<Rightarrow> int \<Rightarrow> int \<Rightarrow> int" where
  "MakeDay year month date =
     (let ym = year + month div 12; mn = month mod 12
      in DayFromYear ym + monthStartDay ym mn + date - 1)"

definition MakeTime :: "int \<Rightarrow> int \<Rightarrow> int \<Rightarrow> int \<Rightarrow> int" where
  "MakeTime hour minute sec ms = hour * 3600000 + minute * 60000 + sec * 1000 + ms"

definition MakeDate :: "int \<Rightarrow> int \<Rightarrow> int" where
  "MakeDate day time = day * 86400000 + time"

definition TimeClip :: "int \<Rightarrow> int option" where
  "TimeClip t = (if \<bar>t\<bar> > 8640000000000000 then None else Some t)"

definition Date_UTC :: "int \<Rightarrow> int \<Rightarrow> int \<Rightarrow> int \<Rightarrow> int \<Rightarrow> int \<Rightarrow> int \<Rightarrow> int option" where
  "Date_UTC year month date hours minutes seconds ms =
     (let yr = (if 0 \<le> year \<and> year \<le> 99 then 1900 + year else year)
      in TimeClip (MakeDate (MakeDay yr month date) (MakeTime hours minutes seconds ms)))"

subsection \<open>The parser\<close>

definition parseTimestamp :: "string \<Rightarrow> int option" where
  "parseTimestamp ts =
     (let numericString = filter (\<lambda>c. isDigit c \<or> c = dot) ts;
          parts = splitOn dot numericString;
          mainPart = (case parts of [] \<Rightarrow> [] | p # _ \<Rightarrow> p)
      in if length mainPart < 14 then None
         else
           let year = parseInt10 (substring mainPart 0 4);
               month = map_option (\<lambda>m. m - 1) (parseInt10 (substring mainPart 4 6));
               day = parseInt10 (substring mainPart 6 8);
               hour = parseInt10 (substring mainPart 8 10);
               minute = parseInt10 (substring mainPart 10 12);
               second = parseInt10 (substring mainPart 12 14);
               fractionalPart = (if length parts > 1 then parts ! 1 else ''0'');
               millisecond = parseInt10 (padEnd (substring fractionalPart 0 3) 3 (CHR ''0''))
           in if None \<in> set [year, month, day, hour, minute, second, millisecond] then None
              else Date_UTC (the year) (the month) (the day) (the hour) (the minute)
                     (the second) (the millisecond))"

section \<open>Data model (\<^verbatim>\<open>src/Audit-log.ts\<close> and the grouping map of \<^verbatim>\<open>processLogFile\<close>)\<close>

record Run =
  uniqueKey :: string
  companyCode :: "string option"
  requestTypes :: "string list"
  isIntercompany :: bool
  isAutoApproved :: bool
  isSecondLevelApproval :: bool
  isErrorTransaction :: bool
  isWbsOwnerMissing :: bool
  isCostCenterOwnerMissing :: bool
  isFallbackTransaction :: bool
  transactionDate :: int
  startTime :: "int option"
  endTime :: "int option"

record entry =
  message :: string
  entryType :: string
  timestamp :: "int option"

record group =
  entries :: "entry list"
  coCd :: string
  timestamps :: "int list"

record columns =
  docIdIndex :: nat
  docVerIndex :: "nat option"
  messageIndex :: nat
  coCdIndex :: nat
  timestampIndex :: nat
  typeIndex :: nat

datatype analysis_error =
  EmptySheet | MissingDocumentId | MissingCoCd | MissingMessage | MissingTimeStamp | MissingType

text \<open>The error strings of the source, one per structural error.\<close>

fun errorText :: "analysis_error \<Rightarrow> string" where
  "errorText EmptySheet = ''The sheet appears to be empty or contains only a header.''"
| "errorText MissingDocumentId =
     ''Could not find required column: '' @ [CHR 0x27] @ ''Document ID'' @ [CHR 0x27]
       @ ''. Please check the column header.''"
| "errorText MissingCoCd =
     ''Could not find required column: '' @ [CHR 0x27] @ ''CoCd'' @ [CHR 0x27]
       @ ''. Please check the column header.''"
| "errorText MissingMessage =
     ''Could not find required column: '' @ [CHR 0x27] @ ''Message'' @ [CHR 0x27]
       @ ''. This column is needed for analysis.''"
| "errorText MissingTimeStamp =
     ''Could not find required column: '' @ [CHR 0x27] @ ''TimeStamp'' @ [CHR 0x27]
       @ ''. This column is needed for the monthly chart.''"
| "errorText MissingType =
     ''Could not find required column: '' @ [CHR 0x27] @ ''Type'' @ [CHR 0x27]
       @ ''. This column is needed for error analysis.''"

section \<open>Message constants and the threshold pattern\<close>

definition autoApprovalMessage :: string where
  "autoApprovalMessage = ''Document assessment executed with the result Approval NOT required''"

definition secondLevelApprovalMessage :: string where
  "secondLevelApprovalMessage = ''2nd Approval is mandated as document amount is''"

definition errorMessage :: string where
  "errorMessage = ''An Error occured while determining the approvers''"

definition startProcessingMessage :: string where
  "startProcessingMessage = ''Running the document assessment, based on outcome: proceed or end''"

definition endProcessingMessage :: string where
  "endProcessingMessage =
     ''Completed execution of the Financial Approvals engine - technical success''"

definition wbsOwnerMissingMessage :: string where
  "wbsOwnerMissingMessage = ''Failed to identify WBS Element object owner for object''"

definition costCenterOwnerMissingMessage :: string where
  "costCenterOwnerMissingMessage = ''Failed to identify Cost Center object owner for object''"

definition fallbackMessagePrefix :: string where
  "fallbackMessagePrefix = ''Using HR Hierarchy data with key''"

definition intercompanyText :: string where
  "intercompanyText = ''Intercompany supplier identified with supplier ID''"

definition nonIntercompanyText :: string where
  "nonIntercompanyText = ''Non Intercompany supplier identified with supplier ID''"

text \<open>
  \<^verbatim>\<open>/Threshold identified:[\s\S]*?\/(?<docType>[A-Z]{3,4})\s+values:/i\<close>.
  Under the \<^verbatim>\<open>i\<close> flag a pattern character matches a code unit with the same upper-case
  form, and \<^verbatim>\<open>[A-Z]\<close> matches the ASCII letters of either case. The match starts at
  the leftmost occurrence of the literal; the lazy \<^verbatim>\<open>[\s\S]*?\<close> stops at the first
  slash after which the rest of the pattern matches; \<^verbatim>\<open>{3,4}\<close> tries four letters
  before three; \<^verbatim>\<open>\s+\<close> must swallow the whole run of white space, since the
  literal that follows does not begin with white space.
\<close>

fun startsWithCI :: "string \<Rightarrow> string \<Rightarrow> bool" where
  "startsWithCI s [] = True"
| "startsWithCI [] (p # ps) = False"
| "startsWithCI (c # cs) (p # ps) =
     (if toUpperChar c = toUpperChar p then startsWithCI cs ps else False)"

definition afterLetters :: "string \<Rightarrow> bool" where
  "afterLetters r =
     (case r of [] \<Rightarrow> False
      | c # _ \<Rightarrow> isWhiteSpace c \<and> startsWithCI (dropWhile isWhiteSpace r) ''values:'')"

definition docTypeAt :: "string \<Rightarrow> string option" where
  "docTypeAt r =
     (let n = length (takeWhile isAsciiLetter (take 4 r)) in
      if n = 4 \<and> afterLetters (drop 4 r) then Some (take 4 r)
      else if 3 \<le> n \<and> afterLetters (drop 3 r) then Some (take 3 r)
      else None)"

fun lazySlash :: "string \<Rightarrow> string option" where
  "lazySlash [] = None"
| "lazySlash (c # cs) =
     (case (if c = CHR ''/'' then docTypeAt cs else None) of
        Some d \<Rightarrow> Some d
      | None \<Rightarrow> lazySlash cs)"

fun thresholdMatch :: "string \<Rightarrow> string option" where
  "thresholdMatch [] = None"
| "thresholdMatch (c # cs) =
     (case (if startsWithCI (c # cs) ''Threshold identified:''
            then lazySlash (drop 21 (c # cs)) else None) of
        Some d \<Rightarrow> Some d
      | None \<Rightarrow> thresholdMatch cs)"

section \<open>Classifier: one group to one \<^verbatim>\<open>Run\<close>\<close>

text \<open>\<^verbatim>\<open>Set.prototype.add\<close> on an insertion-ordered set.\<close>

definition setAdd :: "string list \<Rightarrow> string \<Rightarrow> string list" where
  "setAdd xs x = (if x \<in> set xs then xs else xs @ [x])"

text \<open>The body of the loop \<^verbatim>\<open>for (const entry of data.entries)\<close>; the state is the run
  under construction and \<^verbatim>\<open>requestTypesForRun\<close>.\<close>

definition classifyEntry :: "Run \<times> string list \<Rightarrow> entry \<Rightarrow> Run \<times> string list" where
  "classifyEntry st e =
     (let run = fst st; requestTypesForRun = snd st; msg = message e;
          requestTypesForRun1 =
            (case thresholdMatch msg of
               Some docType \<Rightarrow> setAdd requestTypesForRun (toUpperCase docType)
             | None \<Rightarrow> requestTypesForRun);
          run1 = (if includes_str msg intercompanyText \<and> \<not> includes_str msg nonIntercompanyText
                  then run\<lparr>isIntercompany := True\<rparr> else run);
          run2 = (if msg = autoApprovalMessage then run1\<lparr>isAutoApproved := True\<rparr> else run1);
          run3 = (if startsWith msg secondLevelApprovalMessage
                  then run2\<lparr>isSecondLevelApproval := True\<rparr> else run2);
          run4 = (if msg = errorMessage \<and> entryType e = ''E''
                  then run3\<lparr>isErrorTransaction := True\<rparr> else run3);
          run5 = (if startsWith msg wbsOwnerMissingMessage
                  then run4\<lparr>isWbsOwnerMissing := True\<rparr> else run4);
          run6 = (if startsWith msg costCenterOwnerMissingMessage
                  then run5\<lparr>isCostCenterOwnerMissing := True\<rparr> else run5);
          run7 = (if startsWith msg fallbackMessagePrefix
                  then run6\<lparr>isFallbackTransaction := True\<rparr> else run6)
      in (run7, requestTypesForRun1))"

text \<open>\<^verbatim>\<open>data.entries.filter(e => e.message === marker && e.timestamp)
  .sort((a, b) => b.timestamp - a.timestamp)\<close>; the sort is stable.\<close>

definition markerEntries :: "string \<Rightarrow> entry list \<Rightarrow> entry list" where
  "markerEntries marker es =
     sort_key (\<lambda>e. - the (timestamp e))
       (filter (\<lambda>e. message e = marker \<and> timestamp e \<noteq> None) es)"

definition markerTime :: "string \<Rightarrow> entry list \<Rightarrow> int option" where
  "markerTime marker es =
     (case markerEntries marker es of [] \<Rightarrow> None | e # _ \<Rightarrow> timestamp e)"

text \<open>\<^verbatim>\<open>new Date(Math.max(...xs))\<close>, or the epoch for no timestamps. This is the value
  when the spread call goes through; a list longer than the engine accepts as arguments
  makes the call throw, which \<open>processLogFile\<close> below accounts for.\<close>

definition latestTimestamp :: "int list \<Rightarrow> int" where
  "latestTimestamp ts = (if length ts > 0 then Max (set ts) else 0)"

definition mkRun :: "string \<times> group \<Rightarrow> Run" where
  "mkRun kd =
     (let key = fst kd; data = snd kd;
          run = \<lparr>uniqueKey = key, companyCode = Some (coCd data), requestTypes = [],
                 isIntercompany = False, isAutoApproved = False,
                 isSecondLevelApproval = False, isErrorTransaction = False,
                 isWbsOwnerMissing = False, isCostCenterOwnerMissing = False,
                 isFallbackTransaction = False,
                 transactionDate = latestTimestamp (timestamps data),
                 startTime = None, endTime = None\<rparr>;
          st = foldl classifyEntry (run, []) (entries data)
      in (fst st)\<lparr>requestTypes := snd st,
                  startTime := markerTime startProcessingMessage (entries data),
                  endTime := markerTime endProcessingMessage (entries data)\<rparr>)"

section \<open>Transaction grouper\<close>

fun indexOf :: "'a list \<Rightarrow> 'a \<Rightarrow> nat option" where
  "indexOf [] x = None"
| "indexOf (y # ys) x = (if y = x then Some 0 else map_option Suc (indexOf ys x))"

text \<open>What one data row contributes: \<^const>\<open>None\<close> when the row is skipped, otherwise
  the key, the trimmed company code, the trimmed message and type, and the parsed
  timestamp. \<^verbatim>\<open>fields[docVerIndex]?.trim() ?? ''\<close> is the empty string when the row
  is too short for the version column.\<close>

definition rowFields :: "columns \<Rightarrow> string \<Rightarrow> string list option" where
  "rowFields cols line =
     (let flds = parseCsvLine line in
      if length flds \<le> docIdIndex cols \<or> length flds \<le> messageIndex cols
         \<or> length flds \<le> coCdIndex cols \<or> length flds \<le> timestampIndex cols
         \<or> length flds \<le> typeIndex cols
      then None else Some flds)"

definition rowDocVer :: "columns \<Rightarrow> string list \<Rightarrow> string" where
  "rowDocVer cols flds =
     (case docVerIndex cols of
        None \<Rightarrow> []
      | Some i \<Rightarrow> if i < length flds then trim (flds ! i) else [])"

definition makeKey :: "string \<Rightarrow> string \<Rightarrow> string \<Rightarrow> string" where
  "makeKey documentId docVer companyCd = documentId @ ''-'' @ docVer @ ''-'' @ companyCd"

definition rowTriple :: "columns \<Rightarrow> string \<Rightarrow> (string \<times> string \<times> string) option" where
  "rowTriple cols line =
     (case rowFields cols line of
        None \<Rightarrow> None
      | Some flds \<Rightarrow>
          let documentId = trim (flds ! docIdIndex cols);
              companyCd = trim (flds ! coCdIndex cols)
          in if documentId \<noteq> [] \<and> companyCd \<noteq> []
             then Some (documentId, rowDocVer cols flds, companyCd) else None)"

definition rowKey :: "columns \<Rightarrow> string \<Rightarrow> string option" where
  "rowKey cols line =
     map_option (\<lambda>(documentId, docVer, companyCd). makeKey documentId docVer companyCd)
       (rowTriple cols line)"

definition rowEntry :: "columns \<Rightarrow> string \<Rightarrow> entry" where
  "rowEntry cols line =
     (let flds = parseCsvLine line in
      \<lparr>message = trim (flds ! messageIndex cols),
       entryType = trim (flds ! typeIndex cols),
       timestamp = parseTimestamp (trim (flds ! timestampIndex cols))\<rparr>)"

definition pushRow :: "entry \<Rightarrow> group \<Rightarrow> group" where
  "pushRow e g =
     (let g1 = (if message e \<noteq> [] then g\<lparr>entries := entries g @ [e]\<rparr> else g)
      in case timestamp e of
           None \<Rightarrow> g1
         | Some t \<Rightarrow> g1\<lparr>timestamps := timestamps g1 @ [t]\<rparr>)"

fun updateGroup :: "string \<Rightarrow> (group \<Rightarrow> group) \<Rightarrow> (string \<times> group) list \<Rightarrow> (string \<times> group) list" where
  "updateGroup k f [] = []"
| "updateGroup k f ((k', g) # m) =
     (if k' = k then (k', f g) # m else (k', g) # updateGroup k f m)"

text \<open>The body of \<^verbatim>\<open>for (const line of dataRows)\<close>.\<close>

definition processRow :: "columns \<Rightarrow> (string \<times> group) list \<Rightarrow> string \<Rightarrow> (string \<times> group) list" where
  "processRow cols groupedByTransaction line =
     (case rowTriple cols line of
        None \<Rightarrow> groupedByTransaction
      | Some (documentId, docVer, companyCd) \<Rightarrow>
          let key = makeKey documentId docVer companyCd;
              m1 = (if key \<notin> fst ` set groupedByTransaction
                    then groupedByTransaction
                           @ [(key, \<lparr>entries = [], coCd = companyCd, timestamps = []\<rparr>)]
                    else groupedByTransaction)
          in updateGroup key (pushRow (rowEntry cols line)) m1)"

definition groupRows :: "columns \<Rightarrow> string list \<Rightarrow> (string \<times> group) list" where
  "groupRows cols dataRows = foldl (processRow cols) [] dataRows"

definition buildRuns :: "columns \<Rightarrow> string list \<Rightarrow> Run list" where
  "buildRuns cols dataRows = map mkRun (groupRows cols dataRows)"

section \<open>\<^verbatim>\<open>processLogFile\<close>\<close>

text \<open>\<^verbatim>\<open>fileContent.split(/\r?\n/)\<close>: a line ends at LF or at CR LF; a lone CR does not
  end a line.\<close>

fun splitLines :: "string \<Rightarrow> string list" where
  "splitLines [] = [[]]"
| "splitLines (c # cs) =
     (if c = CHR 0x0A then [] # splitLines cs
      else if c = CHR 0x0D \<and> (case cs of [] \<Rightarrow> False | d # _ \<Rightarrow> d = CHR 0x0A)
      then [] # splitLines (tl cs)
      else consHead c (splitLines cs))"

definition nonEmptyLines :: "string \<Rightarrow> string list" where
  "nonEmptyLines fileContent = filter (\<lambda>line. trim line \<noteq> []) (splitLines fileContent)"

definition headerOf :: "string \<Rightarrow> string list" where
  "headerOf line = map (\<lambda>h. toLowerCase (trim h)) (parseCsvLine line)"

text \<open>
  \<^verbatim>\<open>Math.max(...data.timestamps.map(...))\<close> passes every timestamp of a group as one
  argument of a single call. An engine accepts only so many arguments; beyond its limit,
  here the parameter \<open>maxArguments\<close>, the call throws a \<^verbatim>\<open>RangeError\<close>. Nothing in
  \<^verbatim>\<open>processLogFile\<close> catches it, so the function then neither returns runs nor returns
  an error string.
\<close>

datatype thrown = RangeError

definition spreadOverflows :: "nat \<Rightarrow> (string \<times> group) list \<Rightarrow> bool" where
  "spreadOverflows maxArguments groups =
     list_ex (\<lambda>kd. maxArguments < length (timestamps (snd kd))) groups"

text \<open>The result is \<open>Inl\<close> of what was thrown, or \<open>Inr\<close> of what was returned: an error
  string (\<open>Inl\<close>) or the runs (\<open>Inr\<close>).\<close>

definition processLogFile :: "nat \<Rightarrow> string \<Rightarrow> thrown + (analysis_error + Run list)" where
  "processLogFile maxArguments fileContent =
     (let lines = nonEmptyLines fileContent in
      if length lines < 2 then Inr (Inl EmptySheet)
      else
        let header = headerOf (lines ! 0);
            docIdIndex' = indexOf header ''document id'';
            docVerIndex' = indexOf header ''document version'';
            messageIndex' = indexOf header ''message'';
            coCdIndex' = indexOf header ''cocd'';
            timestampIndex' = indexOf header ''timestamp'';
            typeIndex' = indexOf header ''type''
        in if docIdIndex' = None then Inr (Inl MissingDocumentId)
           else if coCdIndex' = None then Inr (Inl MissingCoCd)
           else if messageIndex' = None then Inr (Inl MissingMessage)
           else if timestampIndex' = None then Inr (Inl MissingTimeStamp)
           else if typeIndex' = None then Inr (Inl MissingType)
           else
             let cols = \<lparr>docIdIndex = the docIdIndex', docVerIndex = docVerIndex',
                         messageIndex = the messageIndex', coCdIndex = the coCdIndex',
                         timestampIndex = the timestampIndex', typeIndex = the typeIndex'\<rparr>;
                 dataRows = drop 1 lines
             in if spreadOverflows maxArguments (groupRows cols dataRows) then Inl RangeError
                else Inr (Inr (buildRuns cols dataRows)))"

section \<open>Aggregator (the memoised values of the dashboard page)\<close>

text \<open>
  The component state the aggregates close over: \<^verbatim>\<open>allRuns\<close>, the
  \<^verbatim>\<open>Set<string>\<close> \<^verbatim>\<open>selectedCompanyCodes\<close> and \<^verbatim>\<open>selectedRequestType: string | null\<close>.
  A string is truthy when it is not empty.
\<close>

record dashboard =
  allRuns :: "Run list"
  selectedCompanyCodes :: "string set"
  selectedRequestType :: "string option"

definition inSelectedCompanyCodes :: "string set \<Rightarrow> Run \<Rightarrow> bool" where
  "inSelectedCompanyCodes sel run =
     (case companyCode run of None \<Rightarrow> False | Some c \<Rightarrow> c \<noteq> [] \<and> c \<in> sel)"

definition requestTypeSelected :: "string option \<Rightarrow> string option" where
  "requestTypeSelected t = (case t of None \<Rightarrow> None | Some s \<Rightarrow> if s \<noteq> [] then Some s else None)"

definition finalFilteredRuns :: "dashboard \<Rightarrow> Run list" where
  "finalFilteredRuns d =
     (let runs = allRuns d;
          runs1 = (if selectedCompanyCodes d \<noteq> {}
                   then filter (inSelectedCompanyCodes (selectedCompanyCodes d)) runs else runs);
          runs2 = (case requestTypeSelected (selectedRequestType d) of
                     Some t \<Rightarrow> filter (\<lambda>run. t \<in> set (requestTypes run)) runs1
                   | None \<Rightarrow> runs1)
      in runs2)"

text \<open>
  A counting object \<^verbatim>\<open>{ [key: string]: number }\<close> is an association list of its own
  properties in the order the keys were first written;
  \<^verbatim>\<open>counts[k] = (counts[k] || 0) + 1\<close> is \<open>bump\<close>. The object is a plain object and
  inherits from \<^verbatim>\<open>Object.prototype\<close>:
  \<^item> for a key that names an inherited function, the first read yields that function, and
    \<^verbatim>\<open>(f || 0) + 1\<close> is a string, the text of the function followed by \<^verbatim>\<open>1\<close>; it is
    stored as an own property, and every later increment appends another \<^verbatim>\<open>1\<close>;
  \<^item> for the key \<^verbatim>\<open>__proto__\<close> the read yields \<^verbatim>\<open>Object.prototype\<close>, and the inherited
    setter ignores the string that is assigned, so that no own property appears.
  A stored value is thus a number, or a string that is not a numeral.
\<close>

datatype tally = Tally nat | NonNumeric

definition inheritedFunctionKeys :: "string list" where
  "inheritedFunctionKeys =
     [''constructor'', ''hasOwnProperty'', ''isPrototypeOf'', ''propertyIsEnumerable'',
      ''toLocaleString'', ''toString'', ''valueOf'', ''__defineGetter__'',
      ''__defineSetter__'', ''__lookupGetter__'', ''__lookupSetter__'']"

fun increment :: "tally \<Rightarrow> tally" where
  "increment (Tally n) = Tally (n + 1)"
| "increment NonNumeric = NonNumeric"

fun bump :: "string \<Rightarrow> (string \<times> tally) list \<Rightarrow> (string \<times> tally) list" where
  "bump k [] =
     (if k = ''__proto__'' then []
      else if k \<in> set inheritedFunctionKeys then [(k, NonNumeric)]
      else [(k, Tally 1)])"
| "bump k ((k', v) # m) = (if k' = k then (k', increment v) # m else (k', v) # bump k m)"

text \<open>
  \<^verbatim>\<open>Object.entries\<close> lists the keys that are array indices (canonical decimal
  numerals below \<open>2\<^sup>3\<^sup>2 - 1\<close>) first, in ascending numeric order, and then the other keys in
  insertion order.
\<close>

definition isArrayIndex :: "string \<Rightarrow> bool" where
  "isArrayIndex s =
     (s \<noteq> [] \<and> list_all isDigit s \<and> (s = ''0'' \<or> hd s \<noteq> CHR ''0'')
      \<and> digitsValue s < 4294967295)"

definition objectEntries :: "(string \<times> tally) list \<Rightarrow> (string \<times> tally) list" where
  "objectEntries m =
     sort_key (\<lambda>kv. digitsValue (fst kv)) (filter (\<lambda>kv. isArrayIndex (fst kv)) m)
       @ filter (\<lambda>kv. \<not> isArrayIndex (fst kv)) m"

text \<open>
  \<^verbatim>\<open>.sort((a, b) => b.count - a.count)\<close>. Among numbers the comparator is a
  consistent comparison function and the sort is stable, descending by count. With a
  string among the values the comparator returns \<^verbatim>\<open>NaN\<close> for it, which the sort reads
  as equal: the comparator is consistent only if all the numbers are one number, and then
  the stable sort keeps the order. Otherwise ECMA-262 leaves the order to the
  implementation, and the result is \<^const>\<open>None\<close>.
\<close>

fun isNumber :: "tally \<Rightarrow> bool" where
  "isNumber (Tally n) = True"
| "isNumber NonNumeric = False"

fun numberOf :: "tally \<Rightarrow> nat" where
  "numberOf (Tally n) = n"
| "numberOf NonNumeric = 0"

definition sortByCountDesc :: "(string \<times> tally) list \<Rightarrow> (string \<times> tally) list option" where
  "sortByCountDesc xs =
     (if list_all (\<lambda>kv. isNumber (snd kv)) xs
      then Some (sort_key (\<lambda>kv. - int (numberOf (snd kv))) xs)
      else if length (remdups (map numberOf (filter isNumber (map snd xs)))) \<le> 1 then Some xs
      else None)"

definition countCompanyCode :: "(string \<times> tally) list \<Rightarrow> Run \<Rightarrow> (string \<times> tally) list" where
  "countCompanyCode companyCodeCounts run =
     (case companyCode run of
        None \<Rightarrow> companyCodeCounts
      | Some c \<Rightarrow> if c \<noteq> [] then bump c companyCodeCounts else companyCodeCounts)"

text \<open>An item \<^verbatim>\<open>{ companyCode, transactions }\<close> is the pair of its two fields.\<close>

definition companyCodeBreakdown :: "dashboard \<Rightarrow> (string \<times> tally) list option" where
  "companyCodeBreakdown d =
     (let runsToConsider =
            (case requestTypeSelected (selectedRequestType d) of
               Some t \<Rightarrow> filter (\<lambda>run. t \<in> set (requestTypes run)) (allRuns d)
             | None \<Rightarrow> allRuns d);
          companyCodeCounts = foldl countCompanyCode [] runsToConsider
      in sortByCountDesc (objectEntries companyCodeCounts))"

definition countRequestTypes :: "(string \<times> tally) list \<Rightarrow> Run \<Rightarrow> (string \<times> tally) list" where
  "countRequestTypes requestTypeCounts run =
     foldl (\<lambda>counts t. bump t counts) requestTypeCounts (requestTypes run)"

text \<open>An item \<^verbatim>\<open>{ type, documents }\<close> is the pair of its two fields.\<close>

definition requestTypeBreakdown :: "dashboard \<Rightarrow> (string \<times> tally) list option" where
  "requestTypeBreakdown d =
     (let runsToConsider =
            (if selectedCompanyCodes d \<noteq> {}
             then filter (inSelectedCompanyCodes (selectedCompanyCodes d)) (allRuns d)
             else allRuns d);
          requestTypeCounts = foldl countRequestTypes [] runsToConsider
      in sortByCountDesc (objectEntries requestTypeCounts))"

subsection \<open>Average processing time\<close>

text \<open>
  Numbers are exact rationals here, where the source computes in binary64: the sum of the
  integer durations, the mean, its quotient by 1000, \<^verbatim>\<open>Math.floor\<close>, and
  \<^verbatim>\<open>Math.round\<close> (the nearest integer, a half rounded up). A time value of the
  embedding is never \<^verbatim>\<open>NaN\<close> and the list divided by is not empty, so the
  \<^verbatim>\<open>isNaN(avgDurationMs)\<close> branch is not taken. An integral number prints in decimal.
  The two computations agree unless a rounded quantity lies within the rounding error of a
  half: for a mean of 500.5 ms the binary64 product is just below 500.5 and prints as
  500, where the exact one prints as 501.
\<close>

fun showNat :: "nat \<Rightarrow> string" where
  "showNat n = (if n < 10 then [char_of (48 + n)] else showNat (n div 10) @ [char_of (48 + n mod 10)])"

declare showNat.simps [simp del]

definition showInt :: "int \<Rightarrow> string" where
  "showInt i = (if i < 0 then CHR ''-'' # showNat (nat (- i)) else showNat (nat i))"

definition mathRound :: "rat \<Rightarrow> int" where
  "mathRound x = \<lfloor>x + 1 / 2\<rfloor>"

definition avgProcessingTime :: "dashboard \<Rightarrow> string" where
  "avgProcessingTime d =
     (let validRuns = filter (\<lambda>run. startTime run \<noteq> None \<and> endTime run \<noteq> None)
                        (finalFilteredRuns d)
      in if length validRuns = 0 then ''N/A''
         else
           let totalDuration =
                 foldl (\<lambda>acc run. acc + (the (endTime run) - the (startTime run))) 0 validRuns;
               avgDurationMs = rat_of_int totalDuration / rat_of_nat (length validRuns)
           in if avgDurationMs = 0 then ''0 sec''
              else
                let totalSeconds = avgDurationMs / 1000;
                    seconds = \<lfloor>totalSeconds\<rfloor>;
                    milliseconds = mathRound ((totalSeconds - rat_of_int seconds) * 1000)
                in if seconds > 0
                   then showInt seconds @ '' sec, '' @ showInt milliseconds @ '' ms''
                   else showInt milliseconds @ '' ms'')"

section \<open>Notions used to state the properties\<close>

subsection \<open>Tokenizing\<close>

text \<open>
  The quote-aware splitter as a scanner from the left: the state \<open>q\<close> says whether an odd
  number of quote characters has been read, each quote toggles it, and a comma ends the
  field only while \<open>q\<close> is false. Started with \<open>q = False\<close> it splits exactly at the
  separators that no odd number of preceding quotes encloses.
\<close>

fun splitOutsideQuotes :: "bool \<Rightarrow> string \<Rightarrow> string list" where
  "splitOutsideQuotes q [] = [[]]"
| "splitOutsideQuotes q (c # cs) =
     (if c = comma \<and> \<not> q then [] # splitOutsideQuotes q cs
      else consHead c (splitOutsideQuotes (if c = dquote then \<not> q else q) cs))"

text \<open>The line \<^verbatim>\<open>"a,b""c"\<close>, its one field \<^verbatim>\<open>a,b"c\<close>, and the line \<^verbatim>\<open>"a,b\<close> with an
  unclosed quote.\<close>

definition quotedLine :: string where
  "quotedLine = [dquote] @ ''a,b'' @ [dquote, dquote] @ ''c'' @ [dquote]"

definition quotedField :: string where
  "quotedField = ''a,b'' @ [dquote] @ ''c''"

definition unclosedLine :: string where
  "unclosedLine = [dquote] @ ''a,b''"

subsection \<open>Calendar time\<close>

text \<open>
  The instant a proleptic Gregorian UTC date and time of day denotes, by counting: whole
  days between 1970-01-01 and the first day of the year (negative before 1970), whole
  days of the months before the month, days before the day, then hours, minutes, seconds
  and milliseconds.
\<close>

definition isLeapYear :: "int \<Rightarrow> bool" where
  "isLeapYear y = (y mod 4 = 0 \<and> (y mod 100 \<noteq> 0 \<or> y mod 400 = 0))"

definition daysInYear :: "int \<Rightarrow> int" where
  "daysInYear y = (if isLeapYear y then 366 else 365)"

definition daysInMonth :: "int \<Rightarrow> int \<Rightarrow> int" where
  "daysInMonth y m =
     (if m = 2 then (if isLeapYear y then 29 else 28)
      else if m = 4 \<or> m = 6 \<or> m = 9 \<or> m = 11 then 30 else 31)"

definition daysBeforeYear :: "int \<Rightarrow> int" where
  "daysBeforeYear y =
     (if 1970 \<le> y then sum_list (map daysInYear [1970..y - 1])
      else - sum_list (map daysInYear [y..1969]))"

definition daysBeforeMonth :: "int \<Rightarrow> int \<Rightarrow> int" where
  "daysBeforeMonth y m = sum_list (map (daysInMonth y) [1..m - 1])"

definition utcInstant :: "int \<Rightarrow> int \<Rightarrow> int \<Rightarrow> int \<Rightarrow> int \<Rightarrow> int \<Rightarrow> int \<Rightarrow> int" where
  "utcInstant y m d h mi s ms =
     ((((daysBeforeYear y + daysBeforeMonth y m + (d - 1)) * 24 + h) * 60 + mi) * 60 + s) * 1000
       + ms"

definition validFields :: "int \<Rightarrow> int \<Rightarrow> int \<Rightarrow> int \<Rightarrow> int \<Rightarrow> int \<Rightarrow> int \<Rightarrow> bool" where
  "validFields y m d h mi s ms =
     (1 \<le> m \<and> m \<le> 12 \<and> 1 \<le> d \<and> d \<le> daysInMonth y m \<and> 0 \<le> h \<and> h < 24
      \<and> 0 \<le> mi \<and> mi < 60 \<and> 0 \<le> s \<and> s < 60 \<and> 0 \<le> ms \<and> ms < 1000)"

text \<open>The digits of a field value before its first decimal point, once every character
  that is neither a digit nor a point is dropped; the digits between the first point and
  the next; and the number that the digits \<open>a..<b\<close> of a digit string write.\<close>

definition mainDigits :: "string \<Rightarrow> string" where
  "mainDigits ts = takeWhile (\<lambda>c. c \<noteq> dot) (filter (\<lambda>c. isDigit c \<or> c = dot) ts)"

definition fractionDigits :: "string \<Rightarrow> string" where
  "fractionDigits ts =
     takeWhile (\<lambda>c. c \<noteq> dot)
       (drop 1 (dropWhile (\<lambda>c. c \<noteq> dot) (filter (\<lambda>c. isDigit c \<or> c = dot) ts)))"

definition digitsAt :: "string \<Rightarrow> nat \<Rightarrow> nat \<Rightarrow> int" where
  "digitsAt s a b = digitsValue (take (b - a) (drop a s))"

definition millisOf :: "string \<Rightarrow> int" where
  "millisOf fs = digitsValue (take 3 (fs @ ''000''))"

subsection \<open>Grouping\<close>

text \<open>The distinct elements of a list in the order of their first occurrence.\<close>

definition firstOccurrences :: "'a list \<Rightarrow> 'a list" where
  "firstOccurrences xs = rev (remdups (rev xs))"

text \<open>The group that the rows with key \<open>k\<close>, and only they, make: their entries with a
  non-empty message, the company code of the first of them, their parsed timestamps.\<close>

definition groupOf :: "columns \<Rightarrow> string list \<Rightarrow> string \<Rightarrow> group" where
  "groupOf cols rows k =
     \<lparr>entries = map (rowEntry cols)
                  (filter (\<lambda>r. rowKey cols r = Some k \<and> message (rowEntry cols r) \<noteq> []) rows),
      coCd = (case find (\<lambda>r. rowKey cols r = Some k) rows of
                None \<Rightarrow> []
              | Some r \<Rightarrow> (case rowTriple cols r of None \<Rightarrow> [] | Some t \<Rightarrow> snd (snd t))),
      timestamps = List.map_filter
                     (\<lambda>r. if rowKey cols r = Some k then timestamp (rowEntry cols r) else None)
                     rows\<rparr>"

subsection \<open>Classification rules, one predicate per flag\<close>

definition isIntercompanyEntry :: "entry \<Rightarrow> bool" where
  "isIntercompanyEntry e =
     (includes_str (message e) intercompanyText \<and> \<not> includes_str (message e) nonIntercompanyText)"

definition isAutoApprovedEntry :: "entry \<Rightarrow> bool" where
  "isAutoApprovedEntry e = (message e = autoApprovalMessage)"

definition isSecondLevelApprovalEntry :: "entry \<Rightarrow> bool" where
  "isSecondLevelApprovalEntry e = startsWith (message e) secondLevelApprovalMessage"

definition isErrorEntry :: "entry \<Rightarrow> bool" where
  "isErrorEntry e = (message e = errorMessage \<and> entryType e = ''E'')"

definition isWbsOwnerMissingEntry :: "entry \<Rightarrow> bool" where
  "isWbsOwnerMissingEntry e = startsWith (message e) wbsOwnerMissingMessage"

definition isCostCenterOwnerMissingEntry :: "entry \<Rightarrow> bool" where
  "isCostCenterOwnerMissingEntry e = startsWith (message e) costCenterOwnerMissingMessage"

definition isFallbackEntry :: "entry \<Rightarrow> bool" where
  "isFallbackEntry e = startsWith (message e) fallbackMessagePrefix"

definition addRequestType :: "string list \<Rightarrow> entry \<Rightarrow> string list" where
  "addRequestType acc e =
     (case thresholdMatch (message e) of Some d \<Rightarrow> setAdd acc (toUpperCase d) | None \<Rightarrow> acc)"

text \<open>The seven flags of a run, as a tuple.\<close>

definition flagsOf :: "Run \<Rightarrow> bool \<times> bool \<times> bool \<times> bool \<times> bool \<times> bool \<times> bool" where
  "flagsOf r = (isIntercompany r, isAutoApproved r, isSecondLevelApproval r, isErrorTransaction r,
                isWbsOwnerMissing r, isCostCenterOwnerMissing r, isFallbackTransaction r)"

fun flagsOr :: "bool \<times> bool \<times> bool \<times> bool \<times> bool \<times> bool \<times> bool
    \<Rightarrow> bool \<times> bool \<times> bool \<times> bool \<times> bool \<times> bool \<times> bool
    \<Rightarrow> bool \<times> bool \<times> bool \<times> bool \<times> bool \<times> bool \<times> bool" where
  "flagsOr (a1, a2, a3, a4, a5, a6, a7) (b1, b2, b3, b4, b5, b6, b7) =
     (a1 \<or> b1, a2 \<or> b2, a3 \<or> b3, a4 \<or> b4, a5 \<or> b5, a6 \<or> b6, a7 \<or> b7)"

subsection \<open>Marker times\<close>

text \<open>The parsed timestamps of the entries whose message is exactly the marker, and the
  latest of a list of instants.\<close>

definition markerStamps :: "string \<Rightarrow> entry list \<Rightarrow> int list" where
  "markerStamps marker es =
     List.map_filter (\<lambda>e. if message e = marker then timestamp e else None) es"

definition latestOf :: "int list \<Rightarrow> int option" where
  "latestOf ts = (if ts = [] then None else Some (Max (set ts)))"

subsection \<open>Header columns\<close>

definition requiredColumns :: "string list" where
  "requiredColumns = [''document id'', ''cocd'', ''message'', ''timestamp'', ''type'']"

text \<open>The header cells of a file, trimmed and lower-cased; none when the file has no
  non-empty line.\<close>

definition headerColumns :: "string \<Rightarrow> string list" where
  "headerColumns fileContent =
     (case nonEmptyLines fileContent of
        [] \<Rightarrow> []
      | line # _ \<Rightarrow> map (\<lambda>h. toLowerCase (trim h)) (parseCsvLine line))"

subsection \<open>The two filter dimensions\<close>

definition byCompanyCodes :: "string set \<Rightarrow> Run list \<Rightarrow> Run list" where
  "byCompanyCodes sel runs =
     (if sel = {} then runs
      else filter (\<lambda>r. \<exists>c. companyCode r = Some c \<and> c \<noteq> [] \<and> c \<in> sel) runs)"

definition byRequestType :: "string option \<Rightarrow> Run list \<Rightarrow> Run list" where
  "byRequestType t runs =
     (case t of
        None \<Rightarrow> runs
      | Some s \<Rightarrow> if s = [] then runs else filter (\<lambda>r. s \<in> set (requestTypes r)) runs)"

text \<open>What a counting object that starts empty holds for the key \<open>c\<close> after \<open>n\<close>
  increments of that key, and, more generally, what it holds after \<open>n\<close> increments when
  it held \<open>x\<close> before.\<close>

definition storedTally :: "string \<Rightarrow> nat \<Rightarrow> tally option" where
  "storedTally c n =
     (if n = 0 \<or> c = ''__proto__'' then None
      else if c \<in> set inheritedFunctionKeys then Some NonNumeric
      else Some (Tally n))"

definition addCount :: "tally option \<Rightarrow> string \<Rightarrow> nat \<Rightarrow> tally option" where
  "addCount x c n =
     (case x of
        None \<Rightarrow> storedTally c n
      | Some v \<Rightarrow> Some (case v of Tally j \<Rightarrow> Tally (j + n) | NonNumeric \<Rightarrow> NonNumeric))"

section \<open>Concrete inputs\<close>

definition exampleHeader :: string where
  "exampleHeader = ''Document ID,CoCd,Message,TimeStamp,Type''"

definition exampleColumns :: columns where
  "exampleColumns = \<lparr>docIdIndex = 0, docVerIndex = None, messageIndex = 2, coCdIndex = 1,
                      timestampIndex = 3, typeIndex = 4\<rparr>"

text \<open>The end-to-end scenario: two rows of one transaction, the auto-approval text at
  12:00:00 and the completion marker at 12:00:05 on 2024-03-01; and a row of another
  document.\<close>

definition rowA :: string where
  "rowA = ''D1,US1,'' @ autoApprovalMessage @ '',20240301120000,S''"

definition rowB :: string where
  "rowB = ''D1,US1,'' @ endProcessingMessage @ '',20240301120005,S''"

definition rowC :: string where
  "rowC = ''D2,US1,m,20240301120000,S''"

definition twoRowFile :: string where
  "twoRowFile = exampleHeader @ [CHR 0x0A] @ rowA @ [CHR 0x0D, CHR 0x0A] @ rowB"

definition entryA :: entry where
  "entryA = \<lparr>message = autoApprovalMessage, entryType = ''S'',
              timestamp = Some 1709294400000\<rparr>"

definition entryB :: entry where
  "entryB = \<lparr>message = endProcessingMessage, entryType = ''S'',
              timestamp = Some 1709294405000\<rparr>"

definition twoRowGroup :: group where
  "twoRowGroup = \<lparr>entries = [entryA, entryB], coCd = ''US1'',
                   timestamps = [1709294400000, 1709294405000]\<rparr>"

definition twoRowRun :: Run where
  "twoRowRun =
     \<lparr>uniqueKey = ''D1--US1'', companyCode = Some ''US1'', requestTypes = [],
      isIntercompany = False, isAutoApproved = True, isSecondLevelApproval = False,
      isErrorTransaction = False, isWbsOwnerMissing = False,
      isCostCenterOwnerMissing = False, isFallbackTransaction = False,
      transactionDate = 1709294405000, startTime = None,
      endTime = Some 1709294405000\<rparr>"

text \<open>A group with two start markers, the later one first, and one other entry.\<close>

definition twoStartsGroup :: group where
  "twoStartsGroup =
     \<lparr>entries = [\<lparr>message = startProcessingMessage, entryType = ''S'', timestamp = Some 2000\<rparr>,
                 \<lparr>message = startProcessingMessage, entryType = ''S'', timestamp = Some 1000\<rparr>,
                 \<lparr>message = ''other'', entryType = ''S'', timestamp = Some 3000\<rparr>],
      coCd = ''US1'', timestamps = [2000, 1000, 3000]\<rparr>"

text \<open>The header followed by \<open>n\<close> copies of the first row of the scenario, and an
  argument limit of the order of magnitude that engines have.\<close>

definition repeatedRowsFile :: "nat \<Rightarrow> string" where
  "repeatedRowsFile n = exampleHeader @ concat (replicate n (CHR 0x0A # rowA))"

definition exampleArgumentLimit :: nat where
  "exampleArgumentLimit = 125000"

text \<open>A file whose header lacks the company-code column.\<close>

definition missingCoCdFile :: string where
  "missingCoCdFile = ''Document ID,Message,TimeStamp,Type'' @ [CHR 0x0A] @ ''D1,m,20240301120000,S''"

text \<open>A small run collection for the aggregates.\<close>

definition sampleRun :: "string \<Rightarrow> string list \<Rightarrow> int option \<Rightarrow> int option \<Rightarrow> Run" where
  "sampleRun c ts s e =
     \<lparr>uniqueKey = c, companyCode = Some c, requestTypes = ts,
      isIntercompany = False, isAutoApproved = False, isSecondLevelApproval = False,
      isErrorTransaction = False, isWbsOwnerMissing = False,
      isCostCenterOwnerMissing = False, isFallbackTransaction = False,
      transactionDate = 0, startTime = s, endTime = e\<rparr>"

definition sampleDashboard :: dashboard where
  "sampleDashboard =
     \<lparr>allRuns = [sampleRun ''US1'' [''PO''] (Some 0) (Some 999),
                 sampleRun ''1000'' [''PO'', ''INV''] (Some 0) (Some 1000),
                 sampleRun ''US1'' [] (Some 5) (Some 1005),
                 sampleRun ''200'' [] None (Some 7)],
      selectedCompanyCodes = {}, selectedRequestType = None\<rparr>"

text \<open>Two rows whose (document id, version, company code) triples differ and whose keys
  coincide.\<close>

definition collideRowA :: string where
  "collideRowA = ''a-,b,'' @ fallbackMessagePrefix @ '',20240301120000,S''"

definition collideRowB :: string where
  "collideRowB = ''a,-b,'' @ errorMessage @ '',20240301120005,E''"

definition collideFile :: string where
  "collideFile = exampleHeader @ [CHR 0x0A] @ collideRowA @ [CHR 0x0A] @ collideRowB"

definition collideGroup :: group where
  "collideGroup =
     \<lparr>entries = [\<lparr>message = fallbackMessagePrefix, entryType = ''S'',
                  timestamp = Some 1709294400000\<rparr>,
                 \<lparr>message = errorMessage, entryType = ''E'',
                  timestamp = Some 1709294405000\<rparr>],
      coCd = ''b'', timestamps = [1709294400000, 1709294405000]\<rparr>"

definition collideRun :: Run where
  "collideRun =
     \<lparr>uniqueKey = ''a---b'', companyCode = Some ''b'', requestTypes = [],
      isIntercompany = False, isAutoApproved = False, isSecondLevelApproval = False,
      isErrorTransaction = True, isWbsOwnerMissing = False,
      isCostCenterOwnerMissing = False, isFallbackTransaction = True,
      transactionDate = 1709294405000, startTime = None, endTime = None\<rparr>"

text \<open>Timestamps: the example of the specification; one with separators and a single
  fractional digit; one in the year 0024; one with day 32.\<close>

definition exampleStamp :: string where
  "exampleStamp = ''20240115103045.123''"

definition looseStamp :: string where
  "looseStamp = ''2024-03-01 12:00:05.5''"

definition ancientStamp :: string where
  "ancientStamp = ''00240115103045''"

definition day32Stamp :: string where
  "day32Stamp = ''20240132000000''"

text \<open>Runs whose company codes are names that a plain object inherits.\<close>

definition inheritedNamesDashboard :: dashboard where
  "inheritedNamesDashboard =
     \<lparr>allRuns = [sampleRun ''__proto__'' [] None None, sampleRun ''constructor'' [] None None,
                 sampleRun ''constructor'' [] None None],
      selectedCompanyCodes = {}, selectedRequestType = None\<rparr>"

text \<open>One run that ends half a second before it starts.\<close>

definition backwardsDashboard :: dashboard where
  "backwardsDashboard =
     \<lparr>allRuns = [sampleRun ''US1'' [] (Some 500) (Some 0)],
      selectedCompanyCodes = {}, selectedRequestType = None\<rparr>"

section \<open>The classifier in closed form\<close>

lemma flag_updates:
  "(if c then r\<lparr>isIntercompany := True\<rparr> else r) = r\<lparr>isIntercompany := isIntercompany r \<or> c\<rparr>"
  "(if c then r\<lparr>isAutoApproved := True\<rparr> else r) = r\<lparr>isAutoApproved := isAutoApproved r \<or> c\<rparr>"
  "(if c then r\<lparr>isSecondLevelApproval := True\<rparr> else r)
     = r\<lparr>isSecondLevelApproval := isSecondLevelApproval r \<or> c\<rparr>"
  "(if c then r\<lparr>isErrorTransaction := True\<rparr> else r)
     = r\<lparr>isErrorTransaction := isErrorTransaction r \<or> c\<rparr>"
  "(if c then r\<lparr>isWbsOwnerMissing := True\<rparr> else r)
     = r\<lparr>isWbsOwnerMissing := isWbsOwnerMissing r \<or> c\<rparr>"
  "(if c then r\<lparr>isCostCenterOwnerMissing := True\<rparr> else r)
     = r\<lparr>isCostCenterOwnerMissing := isCostCenterOwnerMissing r \<or> c\<rparr>"
  "(if c then r\<lparr>isFallbackTransaction := True\<rparr> else r)
     = r\<lparr>isFallbackTransaction := isFallbackTransaction r \<or> c\<rparr>"
  for r :: Run
  by (cases c; simp)+

lemma classifyEntry_closed:
  "classifyEntry (run, rts) e =
     (run\<lparr>isIntercompany := isIntercompany run \<or> isIntercompanyEntry e,
          isAutoApproved := isAutoApproved run \<or> isAutoApprovedEntry e,
          isSecondLevelApproval := isSecondLevelApproval run \<or> isSecondLevelApprovalEntry e,
          isErrorTransaction := isErrorTransaction run \<or> isErrorEntry e,
          isWbsOwnerMissing := isWbsOwnerMissing run \<or> isWbsOwnerMissingEntry e,
          isCostCenterOwnerMissing := isCostCenterOwnerMissing run \<or> isCostCenterOwnerMissingEntry e,
          isFallbackTransaction := isFallbackTransaction run \<or> isFallbackEntry e\<rparr>,
      addRequestType rts e)"
  unfolding classifyEntry_def Let_def isIntercompanyEntry_def isAutoApprovedEntry_def
    isSecondLevelApprovalEntry_def isErrorEntry_def isWbsOwnerMissingEntry_def
    isCostCenterOwnerMissingEntry_def isFallbackEntry_def addRequestType_def
    fst_conv snd_conv flag_updates
  by simp

lemma foldl_classifyEntry_closed:
  "foldl classifyEntry (run, rts) es =
     (run\<lparr>isIntercompany := isIntercompany run \<or> list_ex isIntercompanyEntry es,
          isAutoApproved := isAutoApproved run \<or> list_ex isAutoApprovedEntry es,
          isSecondLevelApproval := isSecondLevelApproval run \<or> list_ex isSecondLevelApprovalEntry es,
          isErrorTransaction := isErrorTransaction run \<or> list_ex isErrorEntry es,
          isWbsOwnerMissing := isWbsOwnerMissing run \<or> list_ex isWbsOwnerMissingEntry es,
          isCostCenterOwnerMissing := isCostCenterOwnerMissing run \<or> list_ex isCostCenterOwnerMissingEntry es,
          isFallbackTransaction := isFallbackTransaction run \<or> list_ex isFallbackEntry es\<rparr>,
      foldl addRequestType rts es)"
proof (induction es arbitrary: run rts)
  case Nil
  show ?case by simp
next
  case (Cons e es)
  show ?case
    by (simp only: foldl_Cons classifyEntry_closed Cons.IH) (simp add: disj_assoc)
qed

lemma mkRun_closed:
  "mkRun (k, g) =
     \<lparr>uniqueKey = k, companyCode = Some (coCd g),
      requestTypes = foldl addRequestType [] (entries g),
      isIntercompany = list_ex isIntercompanyEntry (entries g),
      isAutoApproved = list_ex isAutoApprovedEntry (entries g),
      isSecondLevelApproval = list_ex isSecondLevelApprovalEntry (entries g),
      isErrorTransaction = list_ex isErrorEntry (entries g),
      isWbsOwnerMissing = list_ex isWbsOwnerMissingEntry (entries g),
      isCostCenterOwnerMissing = list_ex isCostCenterOwnerMissingEntry (entries g),
      isFallbackTransaction = list_ex isFallbackEntry (entries g),
      transactionDate = latestTimestamp (timestamps g),
      startTime = markerTime startProcessingMessage (entries g),
      endTime = markerTime endProcessingMessage (entries g)\<rparr>"
  by (simp add: mkRun_def Let_def foldl_classifyEntry_closed)

lemma mkRun_fields:
  "uniqueKey (mkRun (k, g)) = k"
  "companyCode (mkRun (k, g)) = Some (coCd g)"
  "transactionDate (mkRun (k, g)) = latestTimestamp (timestamps g)"
  "startTime (mkRun (k, g)) = markerTime startProcessingMessage (entries g)"
  "endTime (mkRun (k, g)) = markerTime endProcessingMessage (entries g)"
  by (simp_all add: mkRun_closed)

lemma mkRun_flags:
  "flagsOf (mkRun (k, g)) =
     (list_ex isIntercompanyEntry (entries g), list_ex isAutoApprovedEntry (entries g),
      list_ex isSecondLevelApprovalEntry (entries g), list_ex isErrorEntry (entries g),
      list_ex isWbsOwnerMissingEntry (entries g), list_ex isCostCenterOwnerMissingEntry (entries g),
      list_ex isFallbackEntry (entries g))"
  by (simp add: mkRun_closed flagsOf_def)

section \<open>The grouper, characterised\<close>

lemma firstOccurrences_snoc:
  "firstOccurrences (xs @ [x]) =
     (if x \<in> set (firstOccurrences xs) then firstOccurrences xs else firstOccurrences xs @ [x])"
  by (simp add: firstOccurrences_def)

lemma set_firstOccurrences: "set (firstOccurrences xs) = set xs"
  by (simp add: firstOccurrences_def)

lemma distinct_firstOccurrences: "distinct (firstOccurrences xs)"
  by (simp add: firstOccurrences_def)

lemma map_filter_snoc:
  "List.map_filter f (xs @ [x]) =
     (case f x of None \<Rightarrow> List.map_filter f xs | Some y \<Rightarrow> List.map_filter f xs @ [y])"
  by (simp add: List.map_filter_def split: option.splits)

lemma set_map_filter: "set (List.map_filter f xs) = {y. \<exists>x\<in>set xs. f x = Some y}"
  by (induction xs) (auto simp: List.map_filter_simps split: option.splits)

lemma find_snoc:
  "find P (xs @ [y]) = (case find P xs of None \<Rightarrow> (if P y then Some y else None) | Some x \<Rightarrow> Some x)"
  by (induction xs) auto

lemma find_None_set: "find P xs = None \<longleftrightarrow> (\<forall>x\<in>set xs. \<not> P x)"
  by (induction xs) auto

lemma updateGroup_snoc_new:
  "k \<notin> fst ` set m \<Longrightarrow> updateGroup k f (m @ [(k, g)]) = m @ [(k, f g)]"
  by (induction m) auto

lemma updateGroup_map:
  "distinct ks \<Longrightarrow>
   updateGroup k f (map (\<lambda>x. (x, G x)) ks) = map (\<lambda>x. (x, if x = k then f (G x) else G x)) ks"
proof (induction ks)
  case Nil
  then show ?case by simp
next
  case (Cons a ks)
  show ?case
  proof (cases "a = k")
    case True
    with Cons.prems have "k \<notin> set ks" by simp
    then have "map (\<lambda>x. (x, G x)) ks = map (\<lambda>x. (x, if x = k then f (G x) else G x)) ks"
      by (intro map_cong) auto
    with True show ?thesis by simp
  next
    case False
    with Cons show ?thesis by simp
  qed
qed

lemma rowKey_Some_triple:
  "rowTriple cols r = Some (d, v, c) \<Longrightarrow> rowKey cols r = Some (makeKey d v c)"
  by (simp add: rowKey_def)

lemma rowKey_None_triple: "rowTriple cols r = None \<Longrightarrow> rowKey cols r = None"
  by (simp add: rowKey_def)

lemma rowTriple_nonempty:
  "rowTriple cols r = Some (d, v, c) \<Longrightarrow> d \<noteq> [] \<and> c \<noteq> []"
  by (auto simp: rowTriple_def Let_def split: option.splits if_splits)

lemma groupOf_snoc_skip:
  "rowKey cols r \<noteq> Some k \<Longrightarrow> groupOf cols (rows @ [r]) k = groupOf cols rows k"
  by (auto simp: groupOf_def List.map_filter_def find_snoc split: option.splits)

lemma groupOf_snoc_new:
  assumes "rowTriple cols r = Some (d, v, c)"
    and "\<forall>x\<in>set rows. rowKey cols x \<noteq> Some (makeKey d v c)"
  shows "groupOf cols (rows @ [r]) (makeKey d v c)
         = pushRow (rowEntry cols r) \<lparr>entries = [], coCd = c, timestamps = []\<rparr>"
proof -
  have k: "rowKey cols r = Some (makeKey d v c)" using assms(1) by (rule rowKey_Some_triple)
  have f: "find (\<lambda>x. rowKey cols x = Some (makeKey d v c)) rows = None"
    using assms(2) by (simp add: find_None_set)
  have e: "filter (\<lambda>x. rowKey cols x = Some (makeKey d v c) \<and> message (rowEntry cols x) \<noteq> []) rows
           = []"
    using assms(2) by (induction rows) auto
  have t: "List.map_filter (\<lambda>x. if rowKey cols x = Some (makeKey d v c)
                                 then timestamp (rowEntry cols x) else None) rows = []"
    using assms(2) by (induction rows) (auto simp: List.map_filter_simps)
  show ?thesis
    using k f e t assms(1)
    by (auto simp: groupOf_def pushRow_def find_snoc map_filter_snoc split: option.splits)
qed

lemma groupOf_snoc_old:
  assumes "rowKey cols r = Some k" and "\<exists>x\<in>set rows. rowKey cols x = Some k"
  shows "groupOf cols (rows @ [r]) k = pushRow (rowEntry cols r) (groupOf cols rows k)"
proof -
  from assms(2) obtain y where "find (\<lambda>x. rowKey cols x = Some k) rows = Some y"
    by (cases "find (\<lambda>x. rowKey cols x = Some k) rows") (auto simp: find_None_set)
  then show ?thesis
    using assms(1)
    by (auto simp: groupOf_def pushRow_def find_snoc map_filter_snoc split: option.splits)
qed

lemma groupRows_char:
  "groupRows cols rows =
     map (\<lambda>k. (k, groupOf cols rows k)) (firstOccurrences (List.map_filter (rowKey cols) rows))"
proof (induction rows rule: rev_induct)
  case Nil
  show ?case by (simp add: groupRows_def firstOccurrences_def List.map_filter_simps)
next
  case (snoc r rows)
  let ?ks = "firstOccurrences (List.map_filter (rowKey cols) rows)"
  have step: "groupRows cols (rows @ [r]) = processRow cols (groupRows cols rows) r"
    by (simp add: groupRows_def)
  have keys: "fst ` set (groupRows cols rows) = {k. \<exists>x\<in>set rows. rowKey cols x = Some k}"
    by (subst snoc) (auto simp: set_map_filter set_firstOccurrences image_iff)
  show ?case
  proof (cases "rowTriple cols r")
    case None
    then have rk: "rowKey cols r = None" by (rule rowKey_None_triple)
    then have "\<And>k. groupOf cols (rows @ [r]) k = groupOf cols rows k"
      by (simp add: groupOf_snoc_skip)
    with None rk snoc show ?thesis
      by (simp add: step processRow_def map_filter_snoc)
  next
    case (Some t)
    obtain d v c where t: "t = (d, v, c)" by (cases t) auto
    let ?k = "makeKey d v c"
    have rk: "rowKey cols r = Some ?k" using Some t by (simp add: rowKey_Some_triple)
    have others: "\<And>k. k \<noteq> ?k \<Longrightarrow> groupOf cols (rows @ [r]) k = groupOf cols rows k"
      using rk by (simp add: groupOf_snoc_skip)
    show ?thesis
    proof (cases "\<exists>x\<in>set rows. rowKey cols x = Some ?k")
      case True
      then have mem: "?k \<in> set ?ks" by (auto simp: set_map_filter set_firstOccurrences)
      have "?k \<in> fst ` set (groupRows cols rows)" using True keys by simp
      then have "processRow cols (groupRows cols rows) r
            = updateGroup ?k (pushRow (rowEntry cols r)) (groupRows cols rows)"
        using Some t by (simp add: processRow_def Let_def)
      also have "\<dots> = updateGroup ?k (pushRow (rowEntry cols r))
                         (map (\<lambda>k. (k, groupOf cols rows k)) ?ks)"
        by (simp only: snoc)
      also have "\<dots> = map (\<lambda>x. (x, if x = ?k then pushRow (rowEntry cols r) (groupOf cols rows x)
                                     else groupOf cols rows x)) ?ks"
        by (rule updateGroup_map) (rule distinct_firstOccurrences)
      also have "\<dots> = map (\<lambda>k. (k, groupOf cols (rows @ [r]) k)) ?ks"
        using others groupOf_snoc_old[OF rk True] by (intro map_cong) auto
      finally show ?thesis
        using mem rk by (simp add: step map_filter_snoc firstOccurrences_snoc)
    next
      case False
      then have nmem: "?k \<notin> set ?ks" by (auto simp: set_map_filter set_firstOccurrences)
      have nk0: "?k \<notin> fst ` set (groupRows cols rows)" using False keys by simp
      have nk: "?k \<notin> fst ` set (map (\<lambda>k. (k, groupOf cols rows k)) ?ks)"
        using False by (auto simp: set_map_filter set_firstOccurrences)
      have "processRow cols (groupRows cols rows) r
            = updateGroup ?k (pushRow (rowEntry cols r))
                (groupRows cols rows @ [(?k, \<lparr>entries = [], coCd = c, timestamps = []\<rparr>)])"
        using Some t nk0 by (simp add: processRow_def Let_def)
      also have "\<dots> = updateGroup ?k (pushRow (rowEntry cols r))
                (map (\<lambda>k. (k, groupOf cols rows k)) ?ks
                   @ [(?k, \<lparr>entries = [], coCd = c, timestamps = []\<rparr>)])"
        by (simp only: snoc)
      also have "\<dots> = map (\<lambda>k. (k, groupOf cols rows k)) ?ks
                        @ [(?k, pushRow (rowEntry cols r) \<lparr>entries = [], coCd = c, timestamps = []\<rparr>)]"
        by (rule updateGroup_snoc_new[OF nk])
      also have "\<dots> = map (\<lambda>k. (k, groupOf cols (rows @ [r]) k)) ?ks
                        @ [(?k, groupOf cols (rows @ [r]) ?k)]"
      proof -
        have "map (\<lambda>k. (k, groupOf cols rows k)) ?ks = map (\<lambda>k. (k, groupOf cols (rows @ [r]) k)) ?ks"
        proof (intro map_cong refl)
          fix x assume "x \<in> set ?ks"
          with nmem have "x \<noteq> ?k" by auto
          then show "(x, groupOf cols rows x) = (x, groupOf cols (rows @ [r]) x)"
            using others by simp
        qed
        moreover have "groupOf cols (rows @ [r]) ?k
                       = pushRow (rowEntry cols r) \<lparr>entries = [], coCd = c, timestamps = []\<rparr>"
          using Some t False by (intro groupOf_snoc_new) auto
        ultimately show ?thesis by simp
      qed
      finally show ?thesis
        using nmem rk by (simp add: step map_filter_snoc firstOccurrences_snoc)
    qed
  qed
qed

lemma buildRuns_char:
  "buildRuns cols rows =
     map (\<lambda>k. mkRun (k, groupOf cols rows k))
       (firstOccurrences (List.map_filter (rowKey cols) rows))"
  by (simp add: buildRuns_def groupRows_char o_def)

lemma buildRuns_member:
  assumes "run \<in> set (buildRuns cols rows)"
  shows "\<exists>k. run = mkRun (k, groupOf cols rows k) \<and> (\<exists>x\<in>set rows. rowKey cols x = Some k)"
  using assms by (auto simp: buildRuns_char set_map_filter set_firstOccurrences)

lemma processLogFile_Inr:
  assumes "processLogFile maxArguments fileContent = Inr (Inr runs)"
  shows "\<exists>cols. runs = buildRuns cols (drop 1 (nonEmptyLines fileContent))"
  using assms by (auto simp: processLogFile_def Let_def split: if_splits)

lemma processLogFile_run:
  assumes "processLogFile maxArguments fileContent = Inr (Inr runs)" and "run \<in> set runs"
  shows "\<exists>cols rows k. run = mkRun (k, groupOf cols rows k)
           \<and> (\<exists>x\<in>set rows. rowKey cols x = Some k)"
proof -
  from assms(1) obtain cols where "runs = buildRuns cols (drop 1 (nonEmptyLines fileContent))"
    using processLogFile_Inr by blast
  with assms(2) have "run \<in> set (buildRuns cols (drop 1 (nonEmptyLines fileContent)))" by simp
  from buildRuns_member[OF this] show ?thesis by blast
qed

lemma groupOf_coCd_nonempty:
  assumes "\<exists>x\<in>set rows. rowKey cols x = Some k"
  shows "coCd (groupOf cols rows k) \<noteq> []"
proof -
  from assms obtain y where y: "find (\<lambda>x. rowKey cols x = Some k) rows = Some y"
    by (cases "find (\<lambda>x. rowKey cols x = Some k) rows") (auto simp: find_None_set)
  then have "rowKey cols y = Some k" by (auto simp: find_Some_iff)
  then obtain d v c where "rowTriple cols y = Some (d, v, c)"
    by (cases "rowTriple cols y") (auto simp: rowKey_def)
  with y show ?thesis
    by (auto simp: groupOf_def dest: rowTriple_nonempty)
qed

lemma groupOf_entry_stamp:
  assumes "e \<in> set (entries (groupOf cols rows k))" and "timestamp e = Some t"
  shows "t \<in> set (timestamps (groupOf cols rows k))"
  using assms by (auto simp: groupOf_def set_map_filter)

section \<open>Marker times\<close>

lemma set_markerStamps:
  "set (markerStamps marker es) = {t. \<exists>e\<in>set es. message e = marker \<and> timestamp e = Some t}"
  by (auto simp: markerStamps_def set_map_filter split: if_splits)

lemma set_markerEntries:
  "set (markerEntries marker es) = {e \<in> set es. message e = marker \<and> timestamp e \<noteq> None}"
  by (auto simp: markerEntries_def)

lemma markerEntries_head_least:
  assumes "markerEntries marker es = e # rest" and "x \<in> set (markerEntries marker es)"
  shows "the (timestamp x) \<le> the (timestamp e)"
proof -
  have "sorted (map (\<lambda>e. - the (timestamp e)) (markerEntries marker es))"
    by (simp add: markerEntries_def)
  with assms show ?thesis by auto
qed

lemma markerTime_latest: "markerTime marker es = latestOf (markerStamps marker es)"
proof (cases "markerEntries marker es")
  case Nil
  then have "set (markerEntries marker es) = {}" by simp
  then have "set (markerStamps marker es) = {}"
    unfolding set_markerEntries set_markerStamps by auto
  with Nil show ?thesis by (simp add: markerTime_def latestOf_def)
next
  case (Cons e rest)
  then have "e \<in> set (markerEntries marker es)" by simp
  then have e: "e \<in> set es" "message e = marker" and "timestamp e \<noteq> None"
    unfolding set_markerEntries by auto
  then obtain t where t: "timestamp e = Some t" by auto
  have mem: "t \<in> set (markerStamps marker es)" using e t unfolding set_markerStamps by auto
  have ub: "\<And>u. u \<in> set (markerStamps marker es) \<Longrightarrow> u \<le> t"
  proof -
    fix u assume "u \<in> set (markerStamps marker es)"
    then obtain x where "x \<in> set es" "message x = marker" "timestamp x = Some u"
      unfolding set_markerStamps by auto
    then have "x \<in> set (markerEntries marker es)" unfolding set_markerEntries by auto
    from markerEntries_head_least[OF Cons this] show "u \<le> t"
      using t \<open>timestamp x = Some u\<close> by simp
  qed
  have "Max (set (markerStamps marker es)) = t"
    using mem ub by (intro Max_eqI) auto
  with mem Cons t show ?thesis by (auto simp: markerTime_def latestOf_def)
qed

lemma markerTime_Some_entry:
  assumes "markerTime marker es = Some t"
  shows "\<exists>e\<in>set es. timestamp e = Some t"
proof -
  from assms have ne: "markerStamps marker es \<noteq> []" and "t = Max (set (markerStamps marker es))"
    by (auto simp: markerTime_latest latestOf_def split: if_splits)
  then have "t \<in> set (markerStamps marker es)" using Max_in[of "set (markerStamps marker es)"] by simp
  then show ?thesis unfolding set_markerStamps by auto
qed

lemma latestTimestamp_ge: "t \<in> set ts \<Longrightarrow> t \<le> latestTimestamp ts"
  by (auto simp: latestTimestamp_def)

lemma mkRun_groupOf_time_le:
  assumes "markerTime marker (entries (groupOf cols rows k)) = Some t"
  shows "t \<le> transactionDate (mkRun (k, groupOf cols rows k))"
proof -
  from markerTime_Some_entry[OF assms] obtain e
    where "e \<in> set (entries (groupOf cols rows k))" and "timestamp e = Some t" by blast
  then have "t \<in> set (timestamps (groupOf cols rows k))" by (rule groupOf_entry_stamp)
  then show ?thesis by (simp add: mkRun_fields latestTimestamp_ge)
qed

section \<open>The end-to-end scenario, evaluated\<close>

lemma twoRowFile_lines: "nonEmptyLines twoRowFile = [exampleHeader, rowA, rowB]"
  by code_simp

lemma exampleHeader_columns:
  "headerOf exampleHeader = [''document id'', ''cocd'', ''message'', ''timestamp'', ''type'']"
  by code_simp

lemma processLogFile_exampleHeader:
  assumes "nonEmptyLines fileContent = exampleHeader # r # rows"
  shows "processLogFile maxArguments fileContent =
           (if spreadOverflows maxArguments (groupRows exampleColumns (r # rows))
            then Inl RangeError
            else Inr (Inr (buildRuns exampleColumns (r # rows))))"
  using assms
  by (simp add: processLogFile_def exampleHeader_columns exampleColumns_def eval_nat_numeral)

lemma rowA_triple: "rowTriple exampleColumns rowA = Some (''D1'', [], ''US1'')"
  by code_simp

lemma rowB_triple: "rowTriple exampleColumns rowB = Some (''D1'', [], ''US1'')"
  by code_simp

lemma rowA_entry: "rowEntry exampleColumns rowA = entryA"
  by code_simp

lemma rowB_entry: "rowEntry exampleColumns rowB = entryB"
  by code_simp

lemma twoRow_groups: "groupRows exampleColumns [rowA, rowB] = [(''D1--US1'', twoRowGroup)]"
  by (simp add: groupRows_def processRow_def rowA_triple rowB_triple rowA_entry rowB_entry
        makeKey_def pushRow_def entryA_def entryB_def twoRowGroup_def
        autoApprovalMessage_def endProcessingMessage_def)

lemma twoRow_mkRun: "mkRun (''D1--US1'', twoRowGroup) = twoRowRun"
  by (subst mkRun_closed) code_simp

lemma twoRow_within_limit:
  "\<not> spreadOverflows exampleArgumentLimit [(''D1--US1'', twoRowGroup)]"
  by (simp add: spreadOverflows_def twoRowGroup_def exampleArgumentLimit_def)

lemma twoRowFile_runs: "processLogFile exampleArgumentLimit twoRowFile = Inr (Inr [twoRowRun])"
  by (simp add: processLogFile_exampleHeader[OF twoRowFile_lines] buildRuns_def
        twoRow_groups twoRow_mkRun twoRow_within_limit)

section \<open>Company code and transaction date\<close>

text \<open>
  Claim C9. Every run that \<^verbatim>\<open>processLogFile\<close> returns has a company code that is present
  and is not the empty string.
\<close>

theorem companyCode_nonempty:
  assumes "processLogFile maxArguments fileContent = Inr (Inr runs)" and "run \<in> set runs"
  shows "\<exists>c. companyCode run = Some c \<and> c \<noteq> []"
proof -
  from processLogFile_run[OF assms] obtain cols rows k
    where "run = mkRun (k, groupOf cols rows k)" and "\<exists>x\<in>set rows. rowKey cols x = Some k"
    by blast
  then show ?thesis
    by (simp add: mkRun_fields groupOf_coCd_nonempty)
qed

theorem companyCode_nonempty_witness:
  "processLogFile exampleArgumentLimit twoRowFile = Inr (Inr [twoRowRun])
   \<and> twoRowRun \<in> set [twoRowRun]
   \<and> (\<exists>c. companyCode twoRowRun = Some c \<and> c \<noteq> [])"
proof -
  have m: "twoRowRun \<in> set [twoRowRun]" by simp
  from companyCode_nonempty[OF twoRowFile_runs m] show ?thesis
    using twoRowFile_runs by simp
qed

text \<open>
  Claim C10. In every run that \<^verbatim>\<open>processLogFile\<close> returns, a start time that is present is
  at most the transaction date, and so is an end time that is present.
\<close>

theorem marker_times_le_transactionDate:
  assumes "processLogFile maxArguments fileContent = Inr (Inr runs)" and "run \<in> set runs"
  shows "(\<forall>t. startTime run = Some t \<longrightarrow> t \<le> transactionDate run)
       \<and> (\<forall>t. endTime run = Some t \<longrightarrow> t \<le> transactionDate run)"
proof -
  from processLogFile_run[OF assms] obtain cols rows k
    where run: "run = mkRun (k, groupOf cols rows k)" by blast
  show ?thesis
    unfolding run by (auto simp: mkRun_fields(4,5) intro: mkRun_groupOf_time_le)
qed

theorem marker_times_le_transactionDate_witness:
  "processLogFile exampleArgumentLimit twoRowFile = Inr (Inr [twoRowRun])
   \<and> twoRowRun \<in> set [twoRowRun]
   \<and> endTime twoRowRun = Some 1709294405000 \<and> 1709294405000 \<le> transactionDate twoRowRun"
proof -
  have m: "twoRowRun \<in> set [twoRowRun]" by simp
  have e: "endTime twoRowRun = Some 1709294405000" by (simp add: twoRowRun_def)
  from marker_times_le_transactionDate[OF twoRowFile_runs m] e show ?thesis
    using twoRowFile_runs by simp
qed

text \<open>
  Claim C6. For every group, the start time of its run is the latest parsed timestamp among
  the entries whose message is exactly the start marker, and is absent when there is none;
  the end time is the same with the completion marker; with start markers at exactly
  \<open>T1 < T2\<close> the start time is \<open>T2\<close>.
\<close>

theorem marker_time_is_latest:
  "startTime (mkRun (k, g)) = latestOf (markerStamps startProcessingMessage (entries g))
   \<and> endTime (mkRun (k, g)) = latestOf (markerStamps endProcessingMessage (entries g))
   \<and> (T1 < T2 \<and> set (markerStamps startProcessingMessage (entries g)) = {T1, T2}
        \<longrightarrow> startTime (mkRun (k, g)) = Some T2)"
proof -
  have s: "startTime (mkRun (k, g)) = latestOf (markerStamps startProcessingMessage (entries g))"
    by (simp add: mkRun_fields markerTime_latest)
  have e: "endTime (mkRun (k, g)) = latestOf (markerStamps endProcessingMessage (entries g))"
    by (simp add: mkRun_fields markerTime_latest)
  have "startTime (mkRun (k, g)) = Some T2"
    if "T1 < T2" and st: "set (markerStamps startProcessingMessage (entries g)) = {T1, T2}"
  proof -
    from st have "markerStamps startProcessingMessage (entries g) \<noteq> []" by auto
    moreover have "Max {T1, T2} = T2" using that(1) by simp
    ultimately show ?thesis by (simp add: s latestOf_def st)
  qed
  with s e show ?thesis by blast
qed

theorem marker_time_is_latest_witness:
  "(1000::int) < 2000
   \<and> set (markerStamps startProcessingMessage (entries twoStartsGroup)) = {1000, 2000}
   \<and> startTime (mkRun (''D1--US1'', twoStartsGroup)) = Some 2000
   \<and> endTime (mkRun (''D1--US1'', twoStartsGroup)) = None"
proof -
  have st: "markerStamps startProcessingMessage (entries twoStartsGroup) = [2000, 1000]"
    by code_simp
  have en: "markerStamps endProcessingMessage (entries twoStartsGroup) = []"
    by code_simp
  from marker_time_is_latest[of "''D1--US1''" twoStartsGroup 1000 2000] show ?thesis
    by (auto simp: st en latestOf_def)
qed

section \<open>Structural errors\<close>

lemma indexOf_None: "indexOf xs x = None \<longleftrightarrow> x \<notin> set xs"
  by (induction xs) auto

lemma headerColumns_hd:
  "nonEmptyLines fileContent = l # ls \<Longrightarrow> headerColumns fileContent = headerOf l"
  by (simp add: headerColumns_def headerOf_def)

lemma processLogFile_error_string:
  "processLogFile maxArguments fileContent = Inr (Inl e) \<longleftrightarrow>
     (let hs = headerColumns fileContent in
      if length (nonEmptyLines fileContent) < 2 then e = EmptySheet
      else if ''document id'' \<notin> set hs then e = MissingDocumentId
      else if ''cocd'' \<notin> set hs then e = MissingCoCd
      else if ''message'' \<notin> set hs then e = MissingMessage
      else if ''timestamp'' \<notin> set hs then e = MissingTimeStamp
      else if ''type'' \<notin> set hs then e = MissingType
      else False)"
proof (cases "nonEmptyLines fileContent")
  case Nil
  then show ?thesis by (auto simp: processLogFile_def)
next
  case (Cons l ls)
  have "headerOf (nonEmptyLines fileContent ! 0) = headerColumns fileContent"
    using Cons by (simp add: headerColumns_hd)
  then show ?thesis
    unfolding processLogFile_def Let_def by (simp add: indexOf_None) blast
qed

lemma processLogFile_error_string_iff:
  "(\<exists>e. processLogFile maxArguments fileContent = Inr (Inl e)) \<longleftrightarrow>
      length (nonEmptyLines fileContent) < 2
      \<or> (\<exists>c\<in>set requiredColumns. c \<notin> set (headerColumns fileContent))"
  unfolding processLogFile_error_string Let_def requiredColumns_def
  by (simp split: if_splits) blast

lemma missingCoCdFile_header:
  "headerColumns missingCoCdFile = [''document id'', ''message'', ''timestamp'', ''type'']"
  by code_simp

lemma missingCoCdFile_lines: "length (nonEmptyLines missingCoCdFile) = 2"
  by code_simp

lemma missingCoCdFile_error:
  "processLogFile maxArguments missingCoCdFile = Inr (Inl MissingCoCd)"
  by (simp add: processLogFile_error_string missingCoCdFile_header missingCoCdFile_lines)

section \<open>A transaction with more timestamps than one call takes\<close>

lemma splitLines_line:
  assumes "CHR 0x0A \<notin> set l" and "CHR 0x0D \<notin> set l"
  shows "splitLines (l @ CHR 0x0A # rest) = l # splitLines rest"
  using assms by (induction l) auto

lemma splitLines_plain:
  assumes "CHR 0x0A \<notin> set l" and "CHR 0x0D \<notin> set l"
  shows "splitLines l = [l]"
  using assms by (induction l) auto

lemma splitLines_repeated:
  assumes "CHR 0x0A \<notin> set l" "CHR 0x0D \<notin> set l" "CHR 0x0A \<notin> set r" "CHR 0x0D \<notin> set r"
  shows "splitLines (l @ concat (replicate n (CHR 0x0A # r))) = l # replicate n r"
  using assms(1,2)
proof (induction n arbitrary: l)
  case 0
  then show ?case by (simp add: splitLines_plain)
next
  case (Suc n)
  have "splitLines (l @ concat (replicate (Suc n) (CHR 0x0A # r)))
        = splitLines (l @ CHR 0x0A # (r @ concat (replicate n (CHR 0x0A # r))))"
    by simp
  also have "\<dots> = l # splitLines (r @ concat (replicate n (CHR 0x0A # r)))"
    using Suc.prems by (rule splitLines_line)
  also have "\<dots> = l # r # replicate n r"
    using Suc.IH[OF assms(3,4)] by simp
  finally show ?case by simp
qed

lemma example_lines_plain:
  "CHR 0x0A \<notin> set exampleHeader" "CHR 0x0D \<notin> set exampleHeader" "trim exampleHeader \<noteq> []"
  "CHR 0x0A \<notin> set rowA" "CHR 0x0D \<notin> set rowA" "trim rowA \<noteq> []"
  by code_simp+

lemma repeatedRowsFile_lines:
  "nonEmptyLines (repeatedRowsFile n) = exampleHeader # replicate n rowA"
  by (simp add: nonEmptyLines_def repeatedRowsFile_def example_lines_plain
        splitLines_repeated[OF example_lines_plain(1,2,4,5)])

lemma map_filter_replicate:
  "List.map_filter f (replicate n x) = (case f x of None \<Rightarrow> [] | Some y \<Rightarrow> replicate n y)"
  by (induction n) (auto split: option.splits)

lemma remdups_replicate_Suc: "remdups (replicate (Suc n) x) = [x]"
  by (induction n) auto

lemma firstOccurrences_replicate: "0 < n \<Longrightarrow> firstOccurrences (replicate n x) = [x]"
  by (cases n) (simp_all add: firstOccurrences_def remdups_replicate_Suc del: replicate_Suc)

lemma rowA_key: "rowKey exampleColumns rowA = Some ''D1--US1''"
  by (simp add: rowKey_def rowA_triple makeKey_def)

lemma repeated_groups:
  assumes "0 < n"
  shows "groupRows exampleColumns (replicate n rowA)
         = [(''D1--US1'', groupOf exampleColumns (replicate n rowA) ''D1--US1'')]"
    and "length (timestamps (groupOf exampleColumns (replicate n rowA) ''D1--US1'')) = n"
proof -
  have "firstOccurrences (replicate n ''D1--US1'') = [''D1--US1'']"
    using assms by (rule firstOccurrences_replicate)
  then show "groupRows exampleColumns (replicate n rowA)
         = [(''D1--US1'', groupOf exampleColumns (replicate n rowA) ''D1--US1'')]"
    by (simp add: groupRows_char map_filter_replicate rowA_key)
  show "length (timestamps (groupOf exampleColumns (replicate n rowA) ''D1--US1'')) = n"
    by (simp add: groupOf_def map_filter_replicate rowA_key rowA_entry entryA_def)
qed

lemma repeatedRowsFile_header:
  "headerColumns (repeatedRowsFile n)
     = [''document id'', ''cocd'', ''message'', ''timestamp'', ''type'']"
  by (simp add: headerColumns_hd[OF repeatedRowsFile_lines] exampleHeader_columns)

text \<open>
  Claim C7. A file with the five required columns and \<open>n\<close> data rows of one transaction,
  each with a parsed timestamp, has at least two non-empty lines and lacks no required
  column; when \<open>n\<close> exceeds the number of arguments that the engine accepts in one call,
  \<^verbatim>\<open>processLogFile\<close> throws a \<^verbatim>\<open>RangeError\<close>: it returns neither runs nor an error
  string.
\<close>

theorem spread_call_overflows:
  assumes "maxArguments < n"
  shows "2 \<le> length (nonEmptyLines (repeatedRowsFile n))
       \<and> (\<forall>c\<in>set requiredColumns. c \<in> set (headerColumns (repeatedRowsFile n)))
       \<and> processLogFile maxArguments (repeatedRowsFile n) = Inl RangeError"
proof -
  from assms obtain m where n: "n = Suc m" by (cases n) auto
  then have l: "nonEmptyLines (repeatedRowsFile n) = exampleHeader # rowA # replicate m rowA"
    by (simp add: repeatedRowsFile_lines)
  have pos: "0 < n" using assms by simp
  have "spreadOverflows maxArguments (groupRows exampleColumns (replicate n rowA))"
    using assms by (simp add: repeated_groups[OF pos] spreadOverflows_def)
  then have "spreadOverflows maxArguments (groupRows exampleColumns (rowA # replicate m rowA))"
    by (simp add: n)
  then have "processLogFile maxArguments (repeatedRowsFile n) = Inl RangeError"
    by (simp add: processLogFile_exampleHeader[OF l])
  moreover have "2 \<le> length (nonEmptyLines (repeatedRowsFile n))"
    by (simp add: l)
  moreover have "\<forall>c\<in>set requiredColumns. c \<in> set (headerColumns (repeatedRowsFile n))"
    by (simp add: repeatedRowsFile_header requiredColumns_def)
  ultimately show ?thesis by simp
qed

theorem spread_call_overflows_witness:
  "exampleArgumentLimit < 130000
   \<and> processLogFile exampleArgumentLimit (repeatedRowsFile 130000) = Inl RangeError"
proof -
  have lt: "exampleArgumentLimit < 130000" by (simp add: exampleArgumentLimit_def)
  from spread_call_overflows[OF lt] lt show ?thesis by simp
qed

section \<open>Aggregates\<close>

lemma requestTypeSelected_cases:
  "(case requestTypeSelected t of Some s \<Rightarrow> filter (\<lambda>run. s \<in> set (requestTypes run)) runs | None \<Rightarrow> runs)
   = byRequestType t runs"
  by (simp add: requestTypeSelected_def byRequestType_def split: option.splits)

lemma inSelectedCompanyCodes_filter:
  "(if sel \<noteq> {} then filter (inSelectedCompanyCodes sel) runs else runs) = byCompanyCodes sel runs"
proof -
  have "inSelectedCompanyCodes sel = (\<lambda>r. \<exists>c. companyCode r = Some c \<and> c \<noteq> [] \<and> c \<in> sel)"
    by (auto simp: inSelectedCompanyCodes_def fun_eq_iff split: option.splits)
  then show ?thesis by (simp add: byCompanyCodes_def)
qed

lemma byRequestType_None: "byRequestType None runs = runs"
  by (simp add: byRequestType_def)

lemma byCompanyCodes_empty: "byCompanyCodes {} runs = runs"
  by (simp add: byCompanyCodes_def)

lemma finalFilteredRuns_eq:
  "finalFilteredRuns d
     = byRequestType (selectedRequestType d) (byCompanyCodes (selectedCompanyCodes d) (allRuns d))"
  unfolding finalFilteredRuns_def Let_def
  by (simp only: requestTypeSelected_cases inSelectedCompanyCodes_filter)

lemma companyCodeBreakdown_eq:
  "companyCodeBreakdown d =
     sortByCountDesc (objectEntries
       (foldl countCompanyCode [] (byRequestType (selectedRequestType d) (allRuns d))))"
  unfolding companyCodeBreakdown_def Let_def by (simp only: requestTypeSelected_cases)

lemma requestTypeBreakdown_eq:
  "requestTypeBreakdown d =
     sortByCountDesc (objectEntries
       (foldl countRequestTypes [] (byCompanyCodes (selectedCompanyCodes d) (allRuns d))))"
  unfolding requestTypeBreakdown_def Let_def by (simp only: inSelectedCompanyCodes_filter)

subsection \<open>What the counting loops count\<close>

lemma map_of_bump:
  "map_of (bump k m) c = (if c = k then addCount (map_of m c) c 1 else map_of m c)"
  by (induction k m rule: bump.induct)
     (auto simp: addCount_def storedTally_def split: tally.splits)

lemma keys_bump:
  "map fst (bump k m) =
     (if k \<in> set (map fst m) \<or> k = ''__proto__'' then map fst m else map fst m @ [k])"
  by (induction k m rule: bump.induct) force+

lemma distinct_bump: "distinct (map fst m) \<Longrightarrow> distinct (map fst (bump k m))"
  by (simp add: keys_bump)

lemma distinct_foldl_countCompanyCode:
  "distinct (map fst m) \<Longrightarrow> distinct (map fst (foldl countCompanyCode m runs))"
  by (induction runs arbitrary: m)
     (auto simp: countCompanyCode_def distinct_bump split: option.splits)

lemma distinct_foldl_bump:
  "distinct (map fst m) \<Longrightarrow> distinct (map fst (foldl (\<lambda>counts t. bump t counts) m ts))"
  by (induction ts arbitrary: m) (auto simp: distinct_bump)

lemma distinct_countRequestTypes:
  "distinct (map fst m) \<Longrightarrow> distinct (map fst (countRequestTypes m r))"
  by (simp add: countRequestTypes_def distinct_foldl_bump)

lemma distinct_foldl_countRequestTypes:
  "distinct (map fst m) \<Longrightarrow> distinct (map fst (foldl countRequestTypes m runs))"
proof (induction runs arbitrary: m)
  case Nil
  then show ?case by simp
next
  case (Cons r runs)
  from Cons.prems have "distinct (map fst (countRequestTypes m r))"
    by (rule distinct_countRequestTypes)
  then show ?case by (simp only: foldl_Cons Cons.IH)
qed

lemma addCount_addCount: "addCount (addCount x c a) c b = addCount x c (a + b)"
  by (auto simp: addCount_def storedTally_def split: option.splits tally.splits)

lemma addCount_0: "addCount x c 0 = x"
  by (auto simp: addCount_def storedTally_def split: option.splits tally.splits)

lemma map_of_bump_addCount:
  "map_of (bump k m) c = addCount (map_of m c) c (if c = k then 1 else 0)"
  by (simp add: map_of_bump addCount_0)

lemma map_of_countCompanyCode:
  "map_of (countCompanyCode m r) c =
     addCount (map_of m c) c (if c \<noteq> [] \<and> companyCode r = Some c then 1 else 0)"
  by (auto simp: countCompanyCode_def map_of_bump_addCount addCount_0 split: option.splits)

lemma map_of_foldl_countCompanyCode:
  "map_of (foldl countCompanyCode m runs) c =
     addCount (map_of m c) c
       (if c = [] then 0 else length (filter (\<lambda>r. companyCode r = Some c) runs))"
proof (induction runs arbitrary: m)
  case Nil
  show ?case by (simp add: addCount_0)
next
  case (Cons r runs)
  have "map_of (foldl countCompanyCode m (r # runs)) c
        = addCount (addCount (map_of m c) c (if c \<noteq> [] \<and> companyCode r = Some c then 1 else 0)) c
            (if c = [] then 0 else length (filter (\<lambda>r. companyCode r = Some c) runs))"
    by (simp only: foldl_Cons Cons.IH map_of_countCompanyCode)
  then show ?case by (simp add: addCount_addCount)
qed

lemma map_of_foldl_bump:
  "map_of (foldl (\<lambda>counts t. bump t counts) m ts) c = addCount (map_of m c) c (count_list ts c)"
proof (induction ts arbitrary: m)
  case Nil
  show ?case by (simp add: addCount_0)
next
  case (Cons t ts)
  have "map_of (foldl (\<lambda>counts t. bump t counts) m (t # ts)) c
        = addCount (addCount (map_of m c) c (if c = t then 1 else 0)) c (count_list ts c)"
    by (simp only: foldl_Cons Cons.IH map_of_bump_addCount)
  then show ?case by (auto simp: addCount_addCount)
qed

lemma map_of_countRequestTypes:
  "map_of (countRequestTypes m r) c = addCount (map_of m c) c (count_list (requestTypes r) c)"
  by (simp add: countRequestTypes_def map_of_foldl_bump)

lemma map_of_foldl_countRequestTypes:
  "map_of (foldl countRequestTypes m runs) c =
     addCount (map_of m c) c (sum_list (map (\<lambda>r. count_list (requestTypes r) c) runs))"
proof (induction runs arbitrary: m)
  case Nil
  show ?case by (simp add: addCount_0)
next
  case (Cons r runs)
  have "map_of (foldl countRequestTypes m (r # runs)) c
        = addCount (addCount (map_of m c) c (count_list (requestTypes r) c)) c
            (sum_list (map (\<lambda>r. count_list (requestTypes r) c) runs))"
    by (simp only: foldl_Cons Cons.IH map_of_countRequestTypes)
  then show ?case by (simp add: addCount_addCount)
qed

lemma set_objectEntries: "set (objectEntries m) = set m"
  by (auto simp: objectEntries_def)

lemma distinct_objectEntries: "distinct m \<Longrightarrow> distinct (objectEntries m)"
  by (auto simp: objectEntries_def)

lemma sortByCountDesc_Some:
  assumes "sortByCountDesc xs = Some ys"
  shows "set ys = set xs" and "distinct xs \<Longrightarrow> distinct ys"
  using assms by (auto simp: sortByCountDesc_def split: if_splits)

lemma map_of_breakdown:
  assumes "distinct (map fst m)" and "sortByCountDesc (objectEntries m) = Some items"
  shows "map_of items = map_of m"
proof -
  have inj: "inj_on fst (set m)" and dm: "distinct m"
    using assms(1) by (auto simp: distinct_map)
  have s: "set items = set m"
    using sortByCountDesc_Some(1)[OF assms(2)] by (simp add: set_objectEntries)
  have "distinct items"
    using sortByCountDesc_Some(2)[OF assms(2)] dm by (simp add: distinct_objectEntries)
  with inj s have "distinct (map fst items)"
    by (simp add: distinct_map)
  with assms(1) s show ?thesis by (simp add: map_of_inject_set)
qed

lemma companyCodeBreakdown_counts:
  assumes "companyCodeBreakdown d = Some items"
  shows "map_of items c =
           (if c = [] then None
            else storedTally c
                   (length (filter (\<lambda>r. companyCode r = Some c)
                              (byRequestType (selectedRequestType d) (allRuns d)))))"
proof -
  let ?m = "foldl countCompanyCode [] (byRequestType (selectedRequestType d) (allRuns d))"
  have "distinct (map fst ?m)" by (rule distinct_foldl_countCompanyCode) simp
  moreover have "sortByCountDesc (objectEntries ?m) = Some items"
    using assms by (simp add: companyCodeBreakdown_eq)
  ultimately have "map_of items = map_of ?m" by (rule map_of_breakdown)
  then show ?thesis
    by (simp add: map_of_foldl_countCompanyCode addCount_def storedTally_def)
qed

lemma requestTypeBreakdown_counts:
  assumes "requestTypeBreakdown d = Some items"
  shows "map_of items t =
           storedTally t
             (sum_list (map (\<lambda>r. count_list (requestTypes r) t)
                          (byCompanyCodes (selectedCompanyCodes d) (allRuns d))))"
proof -
  let ?m = "foldl countRequestTypes [] (byCompanyCodes (selectedCompanyCodes d) (allRuns d))"
  have "distinct (map fst ?m)" by (rule distinct_foldl_countRequestTypes) simp
  moreover have "sortByCountDesc (objectEntries ?m) = Some items"
    using assms by (simp add: requestTypeBreakdown_eq)
  ultimately have "map_of items = map_of ?m" by (rule map_of_breakdown)
  then show ?thesis
    by (simp add: map_of_foldl_countRequestTypes addCount_def)
qed

text \<open>
  Claim C2. The request-type breakdown does not depend on the selected request type and the
  company-code breakdown does not depend on the selected company codes; each is the
  breakdown, with no filter at all, of the runs that pass the other dimension's filter.
  Where a breakdown is determined, the entry of a company code, or of a request type, is
  what a counting object holds after one increment for each occurrence in exactly those
  runs: the number of occurrences, unless the key is a name that a plain object inherits.
\<close>

theorem breakdown_ignores_own_filter:
  "requestTypeBreakdown (d\<lparr>selectedRequestType := t\<rparr>) = requestTypeBreakdown d
   \<and> companyCodeBreakdown (d\<lparr>selectedCompanyCodes := cs\<rparr>) = companyCodeBreakdown d
   \<and> requestTypeBreakdown d =
       requestTypeBreakdown \<lparr>allRuns = byCompanyCodes (selectedCompanyCodes d) (allRuns d),
                             selectedCompanyCodes = {}, selectedRequestType = None\<rparr>
   \<and> companyCodeBreakdown d =
       companyCodeBreakdown \<lparr>allRuns = byRequestType (selectedRequestType d) (allRuns d),
                             selectedCompanyCodes = {}, selectedRequestType = None\<rparr>
   \<and> (companyCodeBreakdown d = Some items \<longrightarrow>
        map_of items c =
          (if c = [] then None
           else storedTally c
                  (length (filter (\<lambda>r. companyCode r = Some c)
                             (byRequestType (selectedRequestType d) (allRuns d))))))
   \<and> (requestTypeBreakdown d = Some items' \<longrightarrow>
        map_of items' ty =
          storedTally ty
            (sum_list (map (\<lambda>r. count_list (requestTypes r) ty)
                         (byCompanyCodes (selectedCompanyCodes d) (allRuns d)))))"
proof -
  have "requestTypeBreakdown (d\<lparr>selectedRequestType := t\<rparr>) = requestTypeBreakdown d"
    by (simp add: requestTypeBreakdown_eq)
  moreover have "companyCodeBreakdown (d\<lparr>selectedCompanyCodes := cs\<rparr>) = companyCodeBreakdown d"
    by (simp add: companyCodeBreakdown_eq)
  moreover have "requestTypeBreakdown d =
       requestTypeBreakdown \<lparr>allRuns = byCompanyCodes (selectedCompanyCodes d) (allRuns d),
                             selectedCompanyCodes = {}, selectedRequestType = None\<rparr>"
    by (simp add: requestTypeBreakdown_eq byCompanyCodes_empty)
  moreover have "companyCodeBreakdown d =
       companyCodeBreakdown \<lparr>allRuns = byRequestType (selectedRequestType d) (allRuns d),
                             selectedCompanyCodes = {}, selectedRequestType = None\<rparr>"
    by (simp add: companyCodeBreakdown_eq byRequestType_None)
  ultimately show ?thesis
    using companyCodeBreakdown_counts[of d items c] requestTypeBreakdown_counts[of d items' ty]
    by blast
qed

lemma sample_requestTypeBreakdown:
  "requestTypeBreakdown sampleDashboard = Some [(''PO'', Tally 2), (''INV'', Tally 1)]"
  by code_simp

lemma sample_companyCodeBreakdown:
  "companyCodeBreakdown sampleDashboard
     = Some [(''US1'', Tally 2), (''200'', Tally 1), (''1000'', Tally 1)]"
  by code_simp

lemma sample_companyCodeBreakdown_PO:
  "companyCodeBreakdown (sampleDashboard\<lparr>selectedRequestType := Some ''PO''\<rparr>)
     = Some [(''1000'', Tally 1), (''US1'', Tally 1)]"
  by code_simp

lemma PO_runs_US1:
  "length (filter (\<lambda>r. companyCode r = Some ''US1'')
             (byRequestType (selectedRequestType (sampleDashboard\<lparr>selectedRequestType := Some ''PO''\<rparr>))
                (allRuns (sampleDashboard\<lparr>selectedRequestType := Some ''PO''\<rparr>)))) = 1"
  by code_simp

lemma inheritedNames_breakdown:
  "companyCodeBreakdown inheritedNamesDashboard = Some [(''constructor'', NonNumeric)]"
  by code_simp

lemma inheritedNames_constructor:
  "length (filter (\<lambda>r. companyCode r = Some ''constructor'')
             (byRequestType (selectedRequestType inheritedNamesDashboard)
                (allRuns inheritedNamesDashboard))) = 2"
  by code_simp

lemma storedTally_examples:
  "storedTally ''US1'' 1 = Some (Tally 1)"
  "storedTally ''constructor'' 2 = Some NonNumeric"
  by code_simp+

theorem breakdown_ignores_own_filter_witness:
  "requestTypeBreakdown (sampleDashboard\<lparr>selectedRequestType := Some ''PO''\<rparr>)
     = Some [(''PO'', Tally 2), (''INV'', Tally 1)]
   \<and> companyCodeBreakdown (sampleDashboard\<lparr>selectedCompanyCodes := {''US1''}\<rparr>)
     = Some [(''US1'', Tally 2), (''200'', Tally 1), (''1000'', Tally 1)]
   \<and> companyCodeBreakdown (sampleDashboard\<lparr>selectedRequestType := Some ''PO''\<rparr>)
     = Some [(''1000'', Tally 1), (''US1'', Tally 1)]
   \<and> map_of [(''1000'', Tally 1), (''US1'', Tally 1)] ''US1'' = storedTally ''US1'' 1
   \<and> storedTally ''US1'' 1 = Some (Tally 1)
   \<and> companyCodeBreakdown inheritedNamesDashboard = Some [(''constructor'', NonNumeric)]
   \<and> map_of [(''constructor'', NonNumeric)] ''constructor'' = storedTally ''constructor'' 2
   \<and> storedTally ''constructor'' 2 = Some NonNumeric"
proof -
  have "requestTypeBreakdown (sampleDashboard\<lparr>selectedRequestType := Some ''PO''\<rparr>)
          = requestTypeBreakdown sampleDashboard"
    and "companyCodeBreakdown (sampleDashboard\<lparr>selectedCompanyCodes := {''US1''}\<rparr>)
          = companyCodeBreakdown sampleDashboard"
    using breakdown_ignores_own_filter[where d = sampleDashboard and t = "Some ''PO''"
        and cs = "{''US1''}"]
    by blast+
  moreover have "map_of [(''1000'', Tally 1), (''US1'', Tally 1)] ''US1'' = storedTally ''US1'' 1"
    using breakdown_ignores_own_filter[where
        d = "sampleDashboard\<lparr>selectedRequestType := Some ''PO''\<rparr>"
        and items = "[(''1000'', Tally 1), (''US1'', Tally 1)]" and c = "''US1''"]
      sample_companyCodeBreakdown_PO
    unfolding PO_runs_US1 by simp
  moreover have "map_of [(''constructor'', NonNumeric)] ''constructor''
                   = storedTally ''constructor'' 2"
    using breakdown_ignores_own_filter[where d = inheritedNamesDashboard
        and items = "[(''constructor'', NonNumeric)]" and c = "''constructor''"]
      inheritedNames_breakdown
    unfolding inheritedNames_constructor by simp
  ultimately show ?thesis
    by (simp only: sample_requestTypeBreakdown sample_companyCodeBreakdown
          sample_companyCodeBreakdown_PO inheritedNames_breakdown storedTally_examples
          simp_thms)
qed

section \<open>Keys and triples\<close>

lemma hyphen_split:
  assumes "CHR ''-'' \<notin> set a" and "CHR ''-'' \<notin> set b" and "a @ CHR ''-'' # x = b @ CHR ''-'' # y"
  shows "a = b \<and> x = y"
proof -
  have ta: "takeWhile (\<lambda>c. c \<noteq> CHR ''-'') (a @ CHR ''-'' # x) = a"
    using assms(1) by (subst takeWhile_tail) auto
  have tb: "takeWhile (\<lambda>c. c \<noteq> CHR ''-'') (b @ CHR ''-'' # y) = b"
    using assms(2) by (subst takeWhile_tail) auto
  from ta tb assms(3) have "a = b" by simp
  with assms(3) show ?thesis by simp
qed

lemma makeKey_inject:
  assumes "CHR ''-'' \<notin> set d1" "CHR ''-'' \<notin> set v1" "CHR ''-'' \<notin> set d2" "CHR ''-'' \<notin> set v2"
    and "makeKey d1 v1 c1 = makeKey d2 v2 c2"
  shows "d1 = d2 \<and> v1 = v2 \<and> c1 = c2"
proof -
  from assms(5) have "d1 @ CHR ''-'' # (v1 @ CHR ''-'' # c1) = d2 @ CHR ''-'' # (v2 @ CHR ''-'' # c2)"
    by (simp add: makeKey_def)
  from hyphen_split[OF assms(1) assms(3) this]
  have d: "d1 = d2" and "v1 @ CHR ''-'' # c1 = v2 @ CHR ''-'' # c2" by simp_all
  from hyphen_split[OF assms(2) assms(4) this(2)] d show ?thesis by simp
qed

lemma buildRuns_same_key:
  assumes "rowKey cols r1 = Some k" and "rowKey cols r2 = Some k"
  shows "buildRuns cols [r1, r2] = [mkRun (k, groupOf cols [r1, r2] k)]"
    and "buildRuns cols [r1] = [mkRun (k, groupOf cols [r1] k)]"
    and "buildRuns cols [r2] = [mkRun (k, groupOf cols [r2] k)]"
    and "entries (groupOf cols [r1, r2] k)
         = entries (groupOf cols [r1] k) @ entries (groupOf cols [r2] k)"
  using assms
  by (simp_all add: buildRuns_char firstOccurrences_def groupOf_def)

lemma buildRuns_two_keys:
  assumes "rowKey cols r1 = Some k1" and "rowKey cols r2 = Some k2" and "k1 \<noteq> k2"
  shows "map uniqueKey (buildRuns cols [r1, r2]) = [k1, k2]"
  using assms
  by (simp add: buildRuns_char firstOccurrences_def mkRun_fields)

lemma distinct_buildRuns_keys: "distinct (map uniqueKey (buildRuns cols rows))"
proof -
  have "map uniqueKey (buildRuns cols rows) = firstOccurrences (List.map_filter (rowKey cols) rows)"
    by (simp add: buildRuns_char o_def mkRun_fields)
  then show ?thesis by (simp add: distinct_firstOccurrences)
qed

lemma flags_same_key:
  assumes "rowKey cols r1 = Some k" and "rowKey cols r2 = Some k"
  shows "flagsOf (mkRun (k, groupOf cols [r1, r2] k))
         = flagsOr (flagsOf (mkRun (k, groupOf cols [r1] k))) (flagsOf (mkRun (k, groupOf cols [r2] k)))"
  by (simp add: mkRun_flags buildRuns_same_key(4)[OF assms] list_ex_iff) blast

text \<open>
  Claim C1, in the form that holds of the code. The runs are the distinct keys of the rows that are not skipped, in
  order of first occurrence, each built from exactly the rows with that key; so two such
  rows feed the same run if and only if their key strings
  \<open>documentId-docVer-companyCode\<close> are equal. Rows with equal triples have equal keys;
  two rows with one key give exactly one run, whose flags are the disjunction of the
  flags each row alone gives; two rows with different keys give two runs; and different
  triples give different keys whenever no document id or version contains a hyphen.
\<close>

theorem runs_grouped_by_key:
  "buildRuns cols rows =
     map (\<lambda>k. mkRun (k, groupOf cols rows k))
       (firstOccurrences (List.map_filter (rowKey cols) rows))
   \<and> distinct (map uniqueKey (buildRuns cols rows))
   \<and> (rowTriple cols r1 = Some tr \<and> rowTriple cols r2 = Some tr
        \<longrightarrow> rowKey cols r1 = rowKey cols r2 \<and> rowKey cols r1 \<noteq> None)
   \<and> (rowKey cols r1 = Some k \<and> rowKey cols r2 = Some k
        \<longrightarrow> (\<exists>run run1 run2.
               buildRuns cols [r1, r2] = [run] \<and> buildRuns cols [r1] = [run1]
               \<and> buildRuns cols [r2] = [run2]
               \<and> flagsOf run = flagsOr (flagsOf run1) (flagsOf run2)))
   \<and> (rowKey cols r1 = Some k1 \<and> rowKey cols r2 = Some k2 \<and> k1 \<noteq> k2
        \<longrightarrow> map uniqueKey (buildRuns cols [r1, r2]) = [k1, k2])
   \<and> (rowTriple cols r1 = Some (d1, v1, c1) \<and> rowTriple cols r2 = Some (d2, v2, c2)
        \<and> CHR ''-'' \<notin> set d1 \<union> set v1 \<union> set d2 \<union> set v2 \<and> (d1, v1, c1) \<noteq> (d2, v2, c2)
        \<longrightarrow> rowKey cols r1 \<noteq> rowKey cols r2)"
proof (intro conjI impI)
  show "buildRuns cols rows =
     map (\<lambda>k. mkRun (k, groupOf cols rows k))
       (firstOccurrences (List.map_filter (rowKey cols) rows))"
    by (rule buildRuns_char)
  show "distinct (map uniqueKey (buildRuns cols rows))"
    by (rule distinct_buildRuns_keys)
next
  assume "rowTriple cols r1 = Some tr \<and> rowTriple cols r2 = Some tr"
  then show "rowKey cols r1 = rowKey cols r2" and "rowKey cols r1 \<noteq> None"
    by (simp_all add: rowKey_def)
next
  assume a: "rowKey cols r1 = Some k \<and> rowKey cols r2 = Some k"
  then have k1: "rowKey cols r1 = Some k" and k2: "rowKey cols r2 = Some k" by simp_all
  show "\<exists>run run1 run2.
               buildRuns cols [r1, r2] = [run] \<and> buildRuns cols [r1] = [run1]
               \<and> buildRuns cols [r2] = [run2]
               \<and> flagsOf run = flagsOr (flagsOf run1) (flagsOf run2)"
    using buildRuns_same_key(1-3)[OF k1 k2] flags_same_key[OF k1 k2] by blast
next
  assume "rowKey cols r1 = Some k1 \<and> rowKey cols r2 = Some k2 \<and> k1 \<noteq> k2"
  then show "map uniqueKey (buildRuns cols [r1, r2]) = [k1, k2]"
    by (simp add: buildRuns_two_keys)
next
  assume a: "rowTriple cols r1 = Some (d1, v1, c1) \<and> rowTriple cols r2 = Some (d2, v2, c2)
        \<and> CHR ''-'' \<notin> set d1 \<union> set v1 \<union> set d2 \<union> set v2 \<and> (d1, v1, c1) \<noteq> (d2, v2, c2)"
  show "rowKey cols r1 \<noteq> rowKey cols r2"
  proof
    assume "rowKey cols r1 = rowKey cols r2"
    with a have "makeKey d1 v1 c1 = makeKey d2 v2 c2" by (simp add: rowKey_def)
    moreover from a have "CHR ''-'' \<notin> set d1" "CHR ''-'' \<notin> set v1" "CHR ''-'' \<notin> set d2" "CHR ''-'' \<notin> set v2"
      by simp_all
    ultimately have "d1 = d2 \<and> v1 = v2 \<and> c1 = c2" by (intro makeKey_inject)
    with a show False by simp
  qed
qed

lemma rowB_key: "rowKey exampleColumns rowB = Some ''D1--US1''"
  by (simp add: rowKey_def rowB_triple makeKey_def)

lemma rowC_triple: "rowTriple exampleColumns rowC = Some (''D2'', [], ''US1'')"
  by code_simp

lemma rowC_key: "rowKey exampleColumns rowC = Some ''D2--US1''"
  by (simp add: rowKey_def rowC_triple makeKey_def)

theorem runs_grouped_by_key_witness:
  "rowTriple exampleColumns rowA = Some (''D1'', [], ''US1'')
   \<and> rowTriple exampleColumns rowB = Some (''D1'', [], ''US1'')
   \<and> rowKey exampleColumns rowA = Some ''D1--US1'' \<and> rowKey exampleColumns rowB = Some ''D1--US1''
   \<and> (\<exists>run run1 run2.
        buildRuns exampleColumns [rowA, rowB] = [run] \<and> buildRuns exampleColumns [rowA] = [run1]
        \<and> buildRuns exampleColumns [rowB] = [run2]
        \<and> flagsOf run = flagsOr (flagsOf run1) (flagsOf run2))
   \<and> distinct (map uniqueKey (buildRuns exampleColumns [rowA, rowB]))
   \<and> rowTriple exampleColumns rowC = Some (''D2'', [], ''US1'')
   \<and> CHR ''-'' \<notin> set ''D1'' \<union> set [] \<union> set ''D2'' \<union> set []
   \<and> (''D1'', [], ''US1'') \<noteq> (''D2'', [], ''US1'')
   \<and> rowKey exampleColumns rowA \<noteq> rowKey exampleColumns rowC
   \<and> rowKey exampleColumns rowC = Some ''D2--US1'' \<and> ''D1--US1'' \<noteq> ''D2--US1''
   \<and> map uniqueKey (buildRuns exampleColumns [rowA, rowC]) = [''D1--US1'', ''D2--US1'']"
proof -
  note same = runs_grouped_by_key[where cols = exampleColumns and rows = "[rowA, rowB]"
      and ?r1.0 = rowA and ?r2.0 = rowB and k = "''D1--US1''"
      and tr = "(''D1'', [], ''US1'')"]
  note other = runs_grouped_by_key[where cols = exampleColumns and rows = "[rowA, rowC]"
      and ?r1.0 = rowA and ?r2.0 = rowC and ?k1.0 = "''D1--US1''" and ?k2.0 = "''D2--US1''"
      and ?d1.0 = "''D1''" and ?v1.0 = "[]" and ?c1.0 = "''US1''"
      and ?d2.0 = "''D2''" and ?v2.0 = "[]" and ?c2.0 = "''US1''"]
  have h: "CHR ''-'' \<notin> set ''D1'' \<union> set [] \<union> set ''D2'' \<union> set []" by simp
  have n: "(''D1'', [], ''US1'') \<noteq> (''D2'', [], ''US1'')" "''D1--US1'' \<noteq> ''D2--US1''" by simp_all
  from same rowA_triple rowB_triple rowA_key rowB_key
  have 1: "\<exists>run run1 run2.
        buildRuns exampleColumns [rowA, rowB] = [run] \<and> buildRuns exampleColumns [rowA] = [run1]
        \<and> buildRuns exampleColumns [rowB] = [run2]
        \<and> flagsOf run = flagsOr (flagsOf run1) (flagsOf run2)"
    and 2: "distinct (map uniqueKey (buildRuns exampleColumns [rowA, rowB]))"
    by blast+
  from other rowA_triple rowC_triple h n(1)
  have 3: "rowKey exampleColumns rowA \<noteq> rowKey exampleColumns rowC" by blast
  from other rowA_key rowC_key n(2)
  have 4: "map uniqueKey (buildRuns exampleColumns [rowA, rowC]) = [''D1--US1'', ''D2--US1'']"
    by blast
  from 1 2 3 4 h n rowA_triple rowB_triple rowC_triple rowA_key rowB_key rowC_key
  show ?thesis by blast
qed

section \<open>A key collision\<close>

lemma collideFile_lines: "nonEmptyLines collideFile = [exampleHeader, collideRowA, collideRowB]"
  by code_simp

lemma collideRowA_triple: "rowTriple exampleColumns collideRowA = Some (''a-'', [], ''b'')"
  by code_simp

lemma collideRowB_triple: "rowTriple exampleColumns collideRowB = Some (''a'', [], ''-b'')"
  by code_simp

lemma collideRowA_entry:
  "rowEntry exampleColumns collideRowA =
     \<lparr>message = fallbackMessagePrefix, entryType = ''S'', timestamp = Some 1709294400000\<rparr>"
  by code_simp

lemma collideRowB_entry:
  "rowEntry exampleColumns collideRowB =
     \<lparr>message = errorMessage, entryType = ''E'', timestamp = Some 1709294405000\<rparr>"
  by code_simp

lemma collide_groups:
  "groupRows exampleColumns [collideRowA, collideRowB] = [(''a---b'', collideGroup)]"
  by (simp add: groupRows_def processRow_def collideRowA_triple collideRowB_triple
        collideRowA_entry collideRowB_entry makeKey_def pushRow_def collideGroup_def
        fallbackMessagePrefix_def errorMessage_def)

lemma collide_mkRun: "mkRun (''a---b'', collideGroup) = collideRun"
  by (subst mkRun_closed) code_simp

lemma collide_within_limit:
  "\<not> spreadOverflows exampleArgumentLimit [(''a---b'', collideGroup)]"
  by (simp add: spreadOverflows_def collideGroup_def exampleArgumentLimit_def)

theorem distinct_triples_share_run:
  "rowTriple exampleColumns collideRowA = Some (''a-'', [], ''b'')
   \<and> rowTriple exampleColumns collideRowB = Some (''a'', [], ''-b'')
   \<and> (''a-'', [], ''b'') \<noteq> (''a'', [], ''-b'')
   \<and> processLogFile exampleArgumentLimit collideFile = Inr (Inr [collideRun])"
  by (simp add: collideRowA_triple collideRowB_triple
        processLogFile_exampleHeader[OF collideFile_lines] buildRuns_def collide_groups
        collide_mkRun collide_within_limit)

section \<open>The tokenizer\<close>

lemma comma_neq_dquote: "comma \<noteq> dquote"
  by (simp add: comma_def dquote_def)

lemma csvSplit_scanner:
  "csvSplit line = splitOutsideQuotes (odd (count_list line dquote)) line"
proof (induction line)
  case Nil
  show ?case by simp
next
  case (Cons c cs)
  show ?case
  proof (cases "c = dquote")
    case True
    with Cons comma_neq_dquote show ?thesis by simp
  next
    case False
    with Cons show ?thesis by simp
  qed
qed

lemma startsWith_quote: "startsWith t [dquote] \<longleftrightarrow> t \<noteq> [] \<and> hd t = dquote"
  by (cases t) (auto simp: startsWith_def)

lemma endsWith_quote: "endsWith t [dquote] \<longleftrightarrow> t \<noteq> [] \<and> last t = dquote"
proof (cases t rule: rev_cases)
  case Nil
  then show ?thesis by (simp add: endsWith_def)
next
  case (snoc ys y)
  then show ?thesis by (auto simp: endsWith_def)
qed

lemma substring_inner:
  "2 \<le> length t \<Longrightarrow> substring t 1 (length t - 1) = butlast (tl t)"
  by (cases t) (auto simp: substring_def Let_def butlast_conv_take min_def max_def)

lemma cleanField_char:
  "cleanField f =
     (let t = trim f in
      if 2 \<le> length t \<and> hd t = dquote \<and> last t = dquote
      then replaceDoubledQuotes (butlast (tl t)) else t)"
proof -
  let ?t = "trim f"
  consider "length ?t = 0" | "length ?t = 1" | "2 \<le> length ?t" by linarith
  then show ?thesis
  proof cases
    case 1
    then show ?thesis by (simp add: cleanField_def Let_def startsWith_quote)
  next
    case 2
    then obtain a where a: "?t = [a]" by (cases ?t) auto
    have "replaceDoubledQuotes (substring ?t 1 (length ?t - 1)) = ?t"
      using a by (simp add: substring_def Let_def)
    with 2 show ?thesis by (simp add: cleanField_def Let_def)
  next
    case 3
    then have "?t \<noteq> []" by auto
    moreover have "substring ?t 1 (length ?t - 1) = butlast (tl ?t)"
      using 3 by (rule substring_inner)
    ultimately show ?thesis
      using 3 by (simp add: cleanField_def Let_def startsWith_quote endsWith_quote)
  qed
qed

lemma replaceDoubledQuotes_Cons:
  "a \<noteq> dquote \<Longrightarrow> replaceDoubledQuotes (a # xs) = a # replaceDoubledQuotes xs"
  by (cases xs) auto

lemma replaceDoubledQuotes_plain: "dquote \<notin> set s \<Longrightarrow> replaceDoubledQuotes s = s"
  by (induction s) (auto simp: replaceDoubledQuotes_Cons)

lemma replaceDoubledQuotes_pair:
  "dquote \<notin> set s \<Longrightarrow>
   replaceDoubledQuotes (s @ dquote # dquote # r) = s @ dquote # replaceDoubledQuotes r"
  by (induction s) (auto simp: replaceDoubledQuotes_Cons)

lemma quotedLine_fields: "parseCsvLine quotedLine = [quotedField]"
  by code_simp

text \<open>
  Claim C5, in the form that holds of the code. The tokenizer splits a line exactly as the quote-aware scanner does
  when the scanner is started in the state given by the parity of all quotes of the line;
  for a line with an even number of quote characters this is the scanner started outside
  quotes, which splits at a separator only when it is not inside a quoted region. A
  trimmed field of at least two characters that begins and ends with a quote loses these
  two quotes and has each doubled quote, read from the left, replaced by one quote; any
  other field is only trimmed. The line \<^verbatim>\<open>"a,b""c"\<close> yields the one field \<^verbatim>\<open>a,b"c\<close>.
\<close>

theorem parseCsvLine_quote_aware:
  "parseCsvLine line = map cleanField (splitOutsideQuotes (odd (count_list line dquote)) line)
   \<and> (even (count_list line dquote)
        \<longrightarrow> parseCsvLine line = map cleanField (splitOutsideQuotes False line))
   \<and> cleanField f =
        (let t = trim f in
         if 2 \<le> length t \<and> hd t = dquote \<and> last t = dquote
         then replaceDoubledQuotes (butlast (tl t)) else t)
   \<and> (dquote \<notin> set s
        \<longrightarrow> replaceDoubledQuotes s = s
          \<and> replaceDoubledQuotes (s @ [dquote, dquote] @ r) = s @ dquote # replaceDoubledQuotes r)
   \<and> parseCsvLine quotedLine = [quotedField]"
  using csvSplit_scanner[of line] cleanField_char[of f] quotedLine_fields
  by (simp add: parseCsvLine_def replaceDoubledQuotes_plain replaceDoubledQuotes_pair)

theorem parseCsvLine_quote_aware_witness:
  "even (count_list quotedLine dquote)
   \<and> parseCsvLine quotedLine = map cleanField (splitOutsideQuotes False quotedLine)
   \<and> splitOutsideQuotes False quotedLine = [quotedLine]
   \<and> dquote \<notin> set ''a,b''
   \<and> replaceDoubledQuotes (''a,b'' @ [dquote, dquote] @ ''c'') = ''a,b'' @ dquote # ''c''"
proof -
  have e: "even (count_list quotedLine dquote)" by code_simp
  have n: "dquote \<notin> set ''a,b''" by code_simp
  have c: "replaceDoubledQuotes ''c'' = ''c''" by code_simp
  have s: "splitOutsideQuotes False quotedLine = [quotedLine]" by code_simp
  from parseCsvLine_quote_aware[where line = quotedLine and s = "''a,b''" and r = "''c''"] e n c s
  show ?thesis by simp
qed

theorem split_inside_unclosed_quote:
  "unclosedLine ! 2 = comma \<and> odd (count_list (take 2 unclosedLine) dquote)
   \<and> parseCsvLine unclosedLine = [[dquote, CHR ''a''], ''b'']
   \<and> splitOutsideQuotes False unclosedLine = [unclosedLine]"
  by code_simp

section \<open>Calendar arithmetic\<close>

lemma div_succ:
  fixes x n :: int
  assumes "0 < n"
  shows "(x + 1) div n = x div n + (if (x + 1) mod n = 0 then 1 else 0)"
proof -
  let ?q = "x div n" and ?r = "x mod n"
  have x: "x = n * ?q + ?r" by simp
  have r: "0 \<le> ?r" "?r < n" using assms by simp_all
  show ?thesis
  proof (cases "?r = n - 1")
    case True
    with x have e: "x + 1 = n * (?q + 1) + 0" by (simp add: algebra_simps)
    then have "(x + 1) div n = ?q + 1"
      by (rule int_div_pos_eq) (use assms in simp_all)
    moreover from e have "(x + 1) mod n = 0"
      by (rule int_mod_pos_eq) (use assms in simp_all)
    ultimately show ?thesis by simp
  next
    case False
    with r have lt: "?r + 1 < n" by simp
    from x have e: "x + 1 = n * ?q + (?r + 1)" by simp
    from e have "(x + 1) div n = ?q"
      by (rule int_div_pos_eq) (use r lt in simp_all)
    moreover from e have "(x + 1) mod n = ?r + 1"
      by (rule int_mod_pos_eq) (use r lt in simp_all)
    ultimately show ?thesis using r by simp
  qed
qed

lemma mod_shift:
  fixes y :: int
  shows "(y - 1968) mod 4 = y mod 4" and "(y - 1900) mod 100 = y mod 100"
    and "(y - 1600) mod 400 = y mod 400"
proof -
  have "(y - 1968) mod 4 = (y + 4 * (- 492)) mod 4" by simp
  then show "(y - 1968) mod 4 = y mod 4" by (simp only: mod_mult_self2)
  have "(y - 1900) mod 100 = (y + 100 * (- 19)) mod 100" by simp
  then show "(y - 1900) mod 100 = y mod 100" by (simp only: mod_mult_self2)
  have "(y - 1600) mod 400 = (y + 400 * (- 4)) mod 400" by simp
  then show "(y - 1600) mod 400 = y mod 400" by (simp only: mod_mult_self2)
qed

lemma leap_arith:
  fixes A B C y :: int
  assumes "p400 \<Longrightarrow> p100" and "p100 \<Longrightarrow> p4"
  shows "365 * (y + 1 - 1970) + (A + (if p4 then 1 else 0)) - (B + (if p100 then 1 else 0))
           + (C + (if p400 then 1 else 0))
         = 365 * (y - 1970) + A - B + C + (if p4 \<and> (\<not> p100 \<or> p400) then 366 else 365)"
  using assms by (cases p4; cases p100; cases p400; simp)

lemma DayFromYear_step: "DayFromYear (y + 1) = DayFromYear y + daysInYear y"
proof -
  have "(y - 1969 + 1) div 4 = (y - 1969) div 4 + (if (y - 1969 + 1) mod 4 = 0 then 1 else 0)"
    by (rule div_succ) simp
  moreover have "y - 1969 + 1 = y - 1968" "y + 1 - 1969 = y - 1968" by simp_all
  ultimately have a: "(y + 1 - 1969) div 4 = (y - 1969) div 4 + (if y mod 4 = 0 then 1 else 0)"
    by (simp only: mod_shift)
  have "(y - 1901 + 1) div 100
        = (y - 1901) div 100 + (if (y - 1901 + 1) mod 100 = 0 then 1 else 0)"
    by (rule div_succ) simp
  moreover have "y - 1901 + 1 = y - 1900" "y + 1 - 1901 = y - 1900" by simp_all
  ultimately have b: "(y + 1 - 1901) div 100 = (y - 1901) div 100 + (if y mod 100 = 0 then 1 else 0)"
    by (simp only: mod_shift)
  have "(y - 1601 + 1) div 400
        = (y - 1601) div 400 + (if (y - 1601 + 1) mod 400 = 0 then 1 else 0)"
    by (rule div_succ) simp
  moreover have "y - 1601 + 1 = y - 1600" "y + 1 - 1601 = y - 1600" by simp_all
  ultimately have c: "(y + 1 - 1601) div 400 = (y - 1601) div 400 + (if y mod 400 = 0 then 1 else 0)"
    by (simp only: mod_shift)
  have d1: "y mod 400 = 0 \<Longrightarrow> y mod 100 = 0"
    using dvd_trans[of 100 400 y] by (simp add: dvd_eq_mod_eq_0[symmetric])
  have d2: "y mod 100 = 0 \<Longrightarrow> y mod 4 = 0"
    using dvd_trans[of 4 100 y] by (simp add: dvd_eq_mod_eq_0[symmetric])
  show ?thesis
    unfolding DayFromYear_def daysInYear_def isLeapYear_def a b c
    by (rule leap_arith[OF d1 d2])
qed

lemma upto_snoc: "i \<le> j \<Longrightarrow> [i..j] = [i..j - 1] @ [j]"
  by (rule upto_rec2)

lemma daysBeforeYear_step: "daysBeforeYear (y + 1) = daysBeforeYear y + daysInYear y"
proof -
  consider "1970 \<le> y" | "y = 1969" | "y < 1969" by linarith
  then show ?thesis
  proof cases
    case 1
    then have "[1970..y] = [1970..y - 1] @ [y]" by (rule upto_rec2)
    with 1 show ?thesis by (simp add: daysBeforeYear_def)
  next
    case 2
    then show ?thesis by (simp add: daysBeforeYear_def)
  next
    case 3
    then have "[y..1969] = y # [y + 1..1969]" by (simp add: upto_rec1)
    with 3 show ?thesis by (simp add: daysBeforeYear_def)
  qed
qed

lemma DayFromYear_1970: "DayFromYear 1970 = 0"
  by (simp add: DayFromYear_def)

lemma daysBeforeYear_1970: "daysBeforeYear 1970 = 0"
  by (simp add: daysBeforeYear_def)

lemma DayFromYear_counts: "DayFromYear y = daysBeforeYear y"
proof (induction y rule: int_induct[where k = 1970])
  case base
  show ?case by (simp add: DayFromYear_1970 daysBeforeYear_1970)
next
  case (step1 i)
  then show ?case by (simp add: DayFromYear_step daysBeforeYear_step)
next
  case (step2 i)
  have "DayFromYear i = DayFromYear (i - 1) + daysInYear (i - 1)"
    using DayFromYear_step[of "i - 1"] by simp
  moreover have "daysBeforeYear i = daysBeforeYear (i - 1) + daysInYear (i - 1)"
    using daysBeforeYear_step[of "i - 1"] by simp
  ultimately show ?case using step2 by simp
qed

lemma InLeapYear_isLeapYear: "InLeapYear y = (if isLeapYear y then 1 else 0)"
  by (auto simp: InLeapYear_def isLeapYear_def)

lemma monthStartDay_counts:
  assumes "1 \<le> m" and "m \<le> 12"
  shows "monthStartDay y (m - 1) = daysBeforeMonth y m"
proof -
  from assms have "m \<in> set [1..12]" by simp
  then consider "m = 1" | "m = 2" | "m = 3" | "m = 4" | "m = 5" | "m = 6" | "m = 7"
    | "m = 8" | "m = 9" | "m = 10" | "m = 11" | "m = 12" by (auto simp: upto_rec1)
  then show ?thesis
    by cases
       (simp_all add: monthStartDay_def daysBeforeMonth_def daysInMonth_def
          InLeapYear_isLeapYear upto_rec1)
qed

lemma MakeDay_counts:
  assumes "1 \<le> m" and "m \<le> 12"
  shows "MakeDay y (m - 1) d = daysBeforeYear y + daysBeforeMonth y m + (d - 1)"
proof -
  from assms have "(m - 1) div 12 = 0" and "(m - 1) mod 12 = m - 1" by simp_all
  then show ?thesis
    by (simp add: MakeDay_def Let_def DayFromYear_counts monthStartDay_counts[OF assms])
qed

lemma MakeDate_utcInstant:
  assumes "1 \<le> m" and "m \<le> 12"
  shows "MakeDate (MakeDay y (m - 1) d) (MakeTime h mi s ms) = utcInstant y m d h mi s ms"
  by (simp add: MakeDate_def MakeTime_def utcInstant_def MakeDay_counts[OF assms] algebra_simps)

lemma div_bounds:
  fixes x n :: int
  assumes "0 < n"
  shows "n * (x div n) \<le> x" and "x < n * (x div n) + n"
proof -
  have "x = n * (x div n) + x mod n" by simp
  moreover have "0 \<le> x mod n" "x mod n < n" using assms by simp_all
  ultimately show "n * (x div n) \<le> x" and "x < n * (x div n) + n" by linarith+
qed

lemma DayFromYear_bounds:
  assumes "- 1 \<le> y" and "y \<le> 10008"
  shows "- 720000 \<le> DayFromYear y \<and> DayFromYear y \<le> 2936000"
proof -
  define A where "A = (y - 1969) div 4"
  define B where "B = (y - 1901) div 100"
  define C where "C = (y - 1601) div 400"
  have f: "4 * A \<le> y - 1969" "y - 1969 < 4 * A + 4"
    "100 * B \<le> y - 1901" "y - 1901 < 100 * B + 100"
    "400 * C \<le> y - 1601" "y - 1601 < 400 * C + 400"
    unfolding A_def B_def C_def by (simp_all add: div_bounds)
  have e: "DayFromYear y = 365 * (y - 1970) + A - B + C"
    by (simp only: DayFromYear_def A_def B_def C_def)
  have "- 720000 \<le> DayFromYear y" using f e assms by simp
  moreover have "DayFromYear y \<le> 2936000" using f e assms by simp
  ultimately show ?thesis by simp
qed

section \<open>The timestamp parser, step by step\<close>

lemma splitOn_unfold:
  "splitOn d s =
     takeWhile (\<lambda>c. c \<noteq> d) s
       # (if d \<in> set s then splitOn d (drop 1 (dropWhile (\<lambda>c. c \<noteq> d) s)) else [])"
proof (induction s)
  case Nil
  show ?case by simp
next
  case (Cons c s)
  show ?case
  proof (cases "c = d")
    case True
    then show ?thesis by simp
  next
    case False
    with Cons.IH show ?thesis by simp
  qed
qed

lemma splitOn_head: "(case splitOn d s of [] \<Rightarrow> [] | p # _ \<Rightarrow> p) = takeWhile (\<lambda>c. c \<noteq> d) s"
  by (subst splitOn_unfold) simp

lemma splitOn_second:
  "(if length (splitOn d s) > 1 then splitOn d s ! 1 else z)
     = (if d \<in> set s then takeWhile (\<lambda>c. c \<noteq> d) (drop 1 (dropWhile (\<lambda>c. c \<noteq> d) s)) else z)"
proof (cases "d \<in> set s")
  case True
  have "splitOn d s = takeWhile (\<lambda>c. c \<noteq> d) s # splitOn d (drop 1 (dropWhile (\<lambda>c. c \<noteq> d) s))"
    using True by (subst splitOn_unfold) simp
  moreover have "splitOn d (drop 1 (dropWhile (\<lambda>c. c \<noteq> d) s))
      = takeWhile (\<lambda>c. c \<noteq> d) (drop 1 (dropWhile (\<lambda>c. c \<noteq> d) s))
        # (if d \<in> set (drop 1 (dropWhile (\<lambda>c. c \<noteq> d) s))
           then splitOn d (drop 1 (dropWhile (\<lambda>c. c \<noteq> d) (drop 1 (dropWhile (\<lambda>c. c \<noteq> d) s))))
           else [])"
    by (rule splitOn_unfold)
  ultimately show ?thesis using True by simp
next
  case False
  then have "splitOn d s = [takeWhile (\<lambda>c. c \<noteq> d) s]"
    by (subst splitOn_unfold) simp
  with False show ?thesis by simp
qed

lemma isDigit_not_space: "isDigit c \<Longrightarrow> \<not> isWhiteSpace c"
  by (auto simp: isDigit_def isWhiteSpace_def)

lemma isDigit_not_sign: "isDigit c \<Longrightarrow> c \<noteq> CHR ''-'' \<and> c \<noteq> CHR ''+''"
  by (auto simp: isDigit_def)

lemma parseInt10_digits:
  assumes "z \<noteq> []" and "\<forall>c\<in>set z. isDigit c"
  shows "parseInt10 z = Some (digitsValue z)"
proof -
  from assms obtain c r where z: "z = c # r" by (cases z) auto
  with assms(2) have c: "isDigit c" by simp
  have a: "dropWhile isWhiteSpace z = z" using z c by (simp add: isDigit_not_space)
  have b: "takeWhile isDigit z = z" using assms(2) by (simp add: takeWhile_eq_all_conv)
  show ?thesis
    unfolding parseInt10_def a Let_def
    using z isDigit_not_sign[OF c] b assms(1) by simp
qed

lemma substring_take_drop:
  "a \<le> b \<Longrightarrow> b \<le> length s \<Longrightarrow> substring s a b = take (b - a) (drop a s)"
  by (simp add: substring_def Let_def min_def max_def)

lemma set_mainDigits: "\<forall>c\<in>set (mainDigits ts). isDigit c"
proof
  fix c assume "c \<in> set (mainDigits ts)"
  then have "c \<noteq> dot" and "c \<in> set (filter (\<lambda>c. isDigit c \<or> c = dot) ts)"
    unfolding mainDigits_def by (auto dest: set_takeWhileD)
  then show "isDigit c" by auto
qed

lemma set_fractionDigits: "\<forall>c\<in>set (fractionDigits ts). isDigit c"
proof
  fix c assume "c \<in> set (fractionDigits ts)"
  then have "c \<noteq> dot"
    and "c \<in> set (drop 1 (dropWhile (\<lambda>c. c \<noteq> dot) (filter (\<lambda>c. isDigit c \<or> c = dot) ts)))"
    unfolding fractionDigits_def by (auto dest: set_takeWhileD)
  then have "c \<in> set (filter (\<lambda>c. isDigit c \<or> c = dot) ts)"
    by (auto dest!: in_set_dropD set_dropWhileD)
  with \<open>c \<noteq> dot\<close> show "isDigit c" by auto
qed

lemma parseInt10_field:
  assumes "a < b" and "b \<le> length (mainDigits ts)"
  shows "parseInt10 (substring (mainDigits ts) a b) = Some (digitsAt (mainDigits ts) a b)"
proof -
  let ?f = "take (b - a) (drop a (mainDigits ts))"
  have s: "substring (mainDigits ts) a b = ?f"
    using assms by (simp add: substring_take_drop)
  have "length ?f = b - a" using assms by simp
  with assms(1) have ne: "?f \<noteq> []" by auto
  have "\<forall>c\<in>set ?f. isDigit c"
    using set_mainDigits[of ts] by (auto dest!: in_set_takeD in_set_dropD)
  from parseInt10_digits[OF ne this] show ?thesis by (simp add: s digitsAt_def)
qed

lemma zeros: "''000'' = replicate 3 (CHR ''0'')"
  by (simp add: eval_nat_numeral)

lemma padEnd_take: "padEnd (substring s 0 3) 3 (CHR ''0'') = take 3 (s @ ''000'')"
  unfolding zeros by (simp add: padEnd_def substring_def Let_def min_def)

lemma isDigit_zero: "isDigit (CHR ''0'')"
  by (simp add: isDigit_def)

lemma parseInt10_millis:
  assumes "\<forall>c\<in>set s. isDigit c"
  shows "parseInt10 (padEnd (substring s 0 3) 3 (CHR ''0'')) = Some (millisOf s)"
proof -
  let ?z = "take 3 (s @ ''000'')"
  have "length ?z = 3" by simp
  then have ne: "?z \<noteq> []" by auto
  have "\<forall>c\<in>set ?z. isDigit c"
    using assms isDigit_zero by (auto dest!: in_set_takeD)
  from parseInt10_digits[OF ne this] show ?thesis by (simp add: padEnd_take millisOf_def)
qed

lemma millis_no_point: "millisOf ''0'' = millisOf []"
  by (simp add: millisOf_def digitsValue_def)

lemma fraction_no_point:
  assumes "dot \<notin> set (filter (\<lambda>c. isDigit c \<or> c = dot) ts)"
  shows "fractionDigits ts = []"
proof -
  from assms have "dropWhile (\<lambda>c. c \<noteq> dot) (filter (\<lambda>c. isDigit c \<or> c = dot) ts) = []"
    by auto
  then show ?thesis by (simp only: fractionDigits_def drop_Nil takeWhile.simps)
qed

lemma parseTimestamp_short: "length (mainDigits ts) < 14 \<Longrightarrow> parseTimestamp ts = None"
  unfolding parseTimestamp_def Let_def splitOn_head by (simp add: mainDigits_def)

lemma parseTimestamp_long:
  assumes "14 \<le> length (mainDigits ts)"
  shows "parseTimestamp ts =
           Date_UTC (digitsAt (mainDigits ts) 0 4) (digitsAt (mainDigits ts) 4 6 - 1)
             (digitsAt (mainDigits ts) 6 8) (digitsAt (mainDigits ts) 8 10)
             (digitsAt (mainDigits ts) 10 12) (digitsAt (mainDigits ts) 12 14)
             (millisOf (fractionDigits ts))"
proof -
  let ?ns = "filter (\<lambda>c. isDigit c \<or> c = dot) ts"
  let ?fp = "if length (splitOn dot ?ns) > 1 then splitOn dot ?ns ! 1 else ''0''"
  have m: "(case splitOn dot ?ns of [] \<Rightarrow> [] | p # _ \<Rightarrow> p) = mainDigits ts"
    by (simp add: splitOn_head mainDigits_def)
  have ms: "parseInt10 (padEnd (substring ?fp 0 3) 3 (CHR ''0'')) = Some (millisOf (fractionDigits ts))"
  proof (cases "dot \<in> set ?ns")
    case True
    then have "?fp = fractionDigits ts"
      unfolding splitOn_second by (simp add: fractionDigits_def)
    then show ?thesis using parseInt10_millis[OF set_fractionDigits[of ts]] by simp
  next
    case False
    then have "?fp = ''0''" unfolding splitOn_second by simp
    moreover have "parseInt10 (padEnd (substring ''0'' 0 3) 3 (CHR ''0'')) = Some (millisOf ''0'')"
      by (rule parseInt10_millis) (simp add: isDigit_zero)
    ultimately show ?thesis
      using fraction_no_point[OF False] by (simp add: millis_no_point)
  qed
  have f: "parseInt10 (substring (mainDigits ts) 0 4) = Some (digitsAt (mainDigits ts) 0 4)"
    "parseInt10 (substring (mainDigits ts) 4 6) = Some (digitsAt (mainDigits ts) 4 6)"
    "parseInt10 (substring (mainDigits ts) 6 8) = Some (digitsAt (mainDigits ts) 6 8)"
    "parseInt10 (substring (mainDigits ts) 8 10) = Some (digitsAt (mainDigits ts) 8 10)"
    "parseInt10 (substring (mainDigits ts) 10 12) = Some (digitsAt (mainDigits ts) 10 12)"
    "parseInt10 (substring (mainDigits ts) 12 14) = Some (digitsAt (mainDigits ts) 12 14)"
    using assms by (simp_all add: parseInt10_field)
  show ?thesis
    unfolding parseTimestamp_def Let_def m ms f using assms by simp
qed

section \<open>Ranges of the parsed fields\<close>

lemma digit_value_range: "isDigit c \<Longrightarrow> 0 \<le> (of_char c :: int) - 48 \<and> (of_char c :: int) - 48 \<le> 9"
proof -
  assume "isDigit c"
  then have "48 \<le> (of_char c :: nat)" "(of_char c :: nat) \<le> 57" by (simp_all add: isDigit_def)
  then have "48 \<le> int (of_char c)" "int (of_char c) \<le> 57" by simp_all
  then show ?thesis by (simp add: of_nat_of_char)
qed

lemma digitsValue_snoc: "digitsValue (s @ [c]) = 10 * digitsValue s + ((of_char c :: int) - 48)"
  by (simp add: digitsValue_def)

lemma digitsValue_range:
  "\<forall>c\<in>set s. isDigit c \<Longrightarrow> 0 \<le> digitsValue s \<and> digitsValue s < 10 ^ length s"
proof (induction s rule: rev_induct)
  case Nil
  show ?case by (simp add: digitsValue_def)
next
  case (snoc c s)
  then have ih: "0 \<le> digitsValue s" "digitsValue s < 10 ^ length s" by simp_all
  from snoc.prems have "isDigit c" by simp
  from digit_value_range[OF this] ih show ?case
    by (simp add: digitsValue_snoc)
qed

lemma digitsAt_range:
  assumes "a \<le> b" and "b \<le> length (mainDigits ts)"
  shows "0 \<le> digitsAt (mainDigits ts) a b \<and> digitsAt (mainDigits ts) a b < 10 ^ (b - a)"
proof -
  let ?f = "take (b - a) (drop a (mainDigits ts))"
  have l: "length ?f = b - a" using assms by simp
  have "\<forall>c\<in>set ?f. isDigit c"
    using set_mainDigits[of ts] by (auto dest!: in_set_takeD in_set_dropD)
  from digitsValue_range[OF this] show ?thesis by (simp only: digitsAt_def l)
qed

lemma millisOf_range:
  assumes "\<forall>c\<in>set s. isDigit c"
  shows "0 \<le> millisOf s \<and> millisOf s < 1000"
proof -
  let ?z = "take 3 (s @ ''000'')"
  have l: "length ?z = 3" by simp
  have "\<forall>c\<in>set ?z. isDigit c"
    using assms isDigit_zero by (auto dest!: in_set_takeD)
  from digitsValue_range[OF this] show ?thesis by (simp only: millisOf_def l) simp
qed

lemma monthStartDay_range:
  assumes "0 \<le> mn" and "mn \<le> 11"
  shows "0 \<le> monthStartDay y mn \<and> monthStartDay y mn \<le> 335"
proof -
  from assms have "mn \<in> set [0..11]" by simp
  then consider "mn = 0" | "mn = 1" | "mn = 2" | "mn = 3" | "mn = 4" | "mn = 5" | "mn = 6"
    | "mn = 7" | "mn = 8" | "mn = 9" | "mn = 10" | "mn = 11" by (auto simp: upto_rec1)
  then show ?thesis
    by cases (simp_all add: monthStartDay_def InLeapYear_def)
qed

lemma Date_UTC_defined:
  assumes "0 \<le> y" "y \<le> 9999" "0 \<le> mo" "mo \<le> 99" "0 \<le> d" "d \<le> 99" "0 \<le> h" "h \<le> 99"
    "0 \<le> mi" "mi \<le> 99" "0 \<le> s" "s \<le> 99" "0 \<le> ms" "ms \<le> 999"
  shows "Date_UTC y (mo - 1) d h mi s ms =
           Some (MakeDate (MakeDay (if y \<le> 99 then 1900 + y else y) (mo - 1) d)
                   (MakeTime h mi s ms))"
proof -
  let ?yr = "if y \<le> 99 then 1900 + y else y"
  let ?ym = "?yr + (mo - 1) div 12"
  let ?mn = "(mo - 1) mod 12"
  have q: "- 1 \<le> (mo - 1) div 12" "(mo - 1) div 12 \<le> 8"
    using zdiv_mono1[of "- 1" "mo - 1" 12] zdiv_mono1[of "mo - 1" 98 12] assms by simp_all
  have yr: "100 \<le> ?yr" "?yr \<le> 9999" using assms by auto
  with q have ym: "- 1 \<le> ?ym" "?ym \<le> 10008" by linarith+
  have mn: "0 \<le> ?mn" "?mn \<le> 11" by simp_all
  from DayFromYear_bounds[OF ym] monthStartDay_range[OF mn, of ?ym]
  have day: "- 720001 \<le> MakeDay ?yr (mo - 1) d" "MakeDay ?yr (mo - 1) d \<le> 2936434"
    using assms by (simp_all add: MakeDay_def Let_def)
  have time: "0 \<le> MakeTime h mi s ms" "MakeTime h mi s ms \<le> 362439999"
    using assms by (simp_all add: MakeTime_def)
  define D where "D = MakeDay ?yr (mo - 1) d"
  define T where "T = MakeTime h mi s ms"
  from day time have "\<bar>D * 86400000 + T\<bar> \<le> 8640000000000000"
    unfolding D_def T_def by simp
  then have "TimeClip (MakeDate D T) = Some (MakeDate D T)"
    by (simp add: TimeClip_def MakeDate_def)
  then show ?thesis
    using assms(1) unfolding Date_UTC_def Let_def D_def T_def by simp
qed

lemma parseTimestamp_long_defined:
  assumes "14 \<le> length (mainDigits ts)"
  shows "parseTimestamp ts =
           Some (MakeDate
                  (MakeDay (if digitsAt (mainDigits ts) 0 4 \<le> 99
                            then 1900 + digitsAt (mainDigits ts) 0 4
                            else digitsAt (mainDigits ts) 0 4)
                     (digitsAt (mainDigits ts) 4 6 - 1) (digitsAt (mainDigits ts) 6 8))
                  (MakeTime (digitsAt (mainDigits ts) 8 10) (digitsAt (mainDigits ts) 10 12)
                     (digitsAt (mainDigits ts) 12 14) (millisOf (fractionDigits ts))))"
proof -
  have r: "0 \<le> digitsAt (mainDigits ts) 0 4 \<and> digitsAt (mainDigits ts) 0 4 < 10 ^ (4 - 0)"
    "0 \<le> digitsAt (mainDigits ts) 4 6 \<and> digitsAt (mainDigits ts) 4 6 < 10 ^ (6 - 4)"
    "0 \<le> digitsAt (mainDigits ts) 6 8 \<and> digitsAt (mainDigits ts) 6 8 < 10 ^ (8 - 6)"
    "0 \<le> digitsAt (mainDigits ts) 8 10 \<and> digitsAt (mainDigits ts) 8 10 < 10 ^ (10 - 8)"
    "0 \<le> digitsAt (mainDigits ts) 10 12 \<and> digitsAt (mainDigits ts) 10 12 < 10 ^ (12 - 10)"
    "0 \<le> digitsAt (mainDigits ts) 12 14 \<and> digitsAt (mainDigits ts) 12 14 < 10 ^ (14 - 12)"
    using assms by (intro digitsAt_range; simp)+
  have m: "0 \<le> millisOf (fractionDigits ts) \<and> millisOf (fractionDigits ts) < 1000"
    by (rule millisOf_range[OF set_fractionDigits])
  show ?thesis
    unfolding parseTimestamp_long[OF assms]
    by (rule Date_UTC_defined) (use r m in simp_all)
qed

section \<open>What the timestamp parser returns\<close>

lemma exampleStamp_value: "parseTimestamp exampleStamp = Some 1705314645123"
  by code_simp

lemma example_instant: "utcInstant 2024 1 15 10 30 45 123 = 1705314645123"
  by code_simp

text \<open>
  The normalizer on well-formed calendar fields. It drops every character that is neither a
  digit nor a decimal point and returns unparseable when fewer than 14 digits remain before
  the first point. Otherwise, when the four year digits are at least 0100 and the month,
  day, hour, minute and second digits are in calendar range, it returns the UTC instant
  with these fields and with the first three fractional digits, zero-padded, as
  milliseconds. \<^verbatim>\<open>20240115103045.123\<close> parses to 2024-01-15T10:30:45.123Z, which is
  1705314645123.
\<close>

lemma parseTimestamp_calendar:
  "(length (mainDigits ts) < 14 \<longrightarrow> parseTimestamp ts = None)
   \<and> (14 \<le> length (mainDigits ts) \<and> 100 \<le> digitsAt (mainDigits ts) 0 4
        \<and> validFields (digitsAt (mainDigits ts) 0 4) (digitsAt (mainDigits ts) 4 6)
             (digitsAt (mainDigits ts) 6 8) (digitsAt (mainDigits ts) 8 10)
             (digitsAt (mainDigits ts) 10 12) (digitsAt (mainDigits ts) 12 14)
             (millisOf (fractionDigits ts))
        \<longrightarrow> parseTimestamp ts =
              Some (utcInstant (digitsAt (mainDigits ts) 0 4) (digitsAt (mainDigits ts) 4 6)
                      (digitsAt (mainDigits ts) 6 8) (digitsAt (mainDigits ts) 8 10)
                      (digitsAt (mainDigits ts) 10 12) (digitsAt (mainDigits ts) 12 14)
                      (millisOf (fractionDigits ts))))
   \<and> parseTimestamp exampleStamp = Some (utcInstant 2024 1 15 10 30 45 123)
   \<and> utcInstant 2024 1 15 10 30 45 123 = 1705314645123"
proof (intro conjI impI)
  assume "length (mainDigits ts) < 14"
  then show "parseTimestamp ts = None" by (rule parseTimestamp_short)
next
  let ?m = "mainDigits ts"
  assume a: "14 \<le> length ?m \<and> 100 \<le> digitsAt ?m 0 4
        \<and> validFields (digitsAt ?m 0 4) (digitsAt ?m 4 6) (digitsAt ?m 6 8) (digitsAt ?m 8 10)
             (digitsAt ?m 10 12) (digitsAt ?m 12 14) (millisOf (fractionDigits ts))"
  then have len: "14 \<le> length ?m" and yr: "100 \<le> digitsAt ?m 0 4"
    and mo: "1 \<le> digitsAt ?m 4 6" "digitsAt ?m 4 6 \<le> 12"
    by (simp_all add: validFields_def)
  from yr have "\<not> digitsAt ?m 0 4 \<le> 99" by simp
  then show "parseTimestamp ts =
              Some (utcInstant (digitsAt ?m 0 4) (digitsAt ?m 4 6) (digitsAt ?m 6 8)
                      (digitsAt ?m 8 10) (digitsAt ?m 10 12) (digitsAt ?m 12 14)
                      (millisOf (fractionDigits ts)))"
    by (simp only: parseTimestamp_long_defined[OF len] if_False MakeDate_utcInstant[OF mo])
next
  show "parseTimestamp exampleStamp = Some (utcInstant 2024 1 15 10 30 45 123)"
    by (simp only: exampleStamp_value example_instant)
  show "utcInstant 2024 1 15 10 30 45 123 = 1705314645123"
    by (rule example_instant)
qed

lemma looseStamp_fields:
  "length (mainDigits looseStamp) = 14"
  "digitsAt (mainDigits looseStamp) 0 4 = 2024" "digitsAt (mainDigits looseStamp) 4 6 = 3"
  "digitsAt (mainDigits looseStamp) 6 8 = 1" "digitsAt (mainDigits looseStamp) 8 10 = 12"
  "digitsAt (mainDigits looseStamp) 10 12 = 0" "digitsAt (mainDigits looseStamp) 12 14 = 5"
  "millisOf (fractionDigits looseStamp) = 500"
  by code_simp+

lemma loose_valid: "validFields 2024 3 1 12 0 5 500"
  by code_simp

lemma loose_instant: "utcInstant 2024 3 1 12 0 5 500 = 1709294405500"
  by code_simp

lemma parseTimestamp_calendar_example:
  "14 \<le> length (mainDigits looseStamp) \<and> (100::int) \<le> 2024 \<and> validFields 2024 3 1 12 0 5 500
   \<and> parseTimestamp looseStamp = Some 1709294405500
   \<and> length (mainDigits ''2024-03-01'') < 14 \<and> parseTimestamp ''2024-03-01'' = None"
proof -
  have s: "length (mainDigits ''2024-03-01'') < 14" by code_simp
  from parseTimestamp_calendar[of looseStamp] parseTimestamp_calendar[of "''2024-03-01''"] s
  show ?thesis
    by (simp add: looseStamp_fields loose_valid loose_instant)
qed

lemma ancientStamp_fields:
  "length (mainDigits ancientStamp) = 14" "digitsAt (mainDigits ancientStamp) 0 4 = 24"
  by code_simp+

lemma ancient_valid: "validFields 24 1 15 10 30 45 0"
  by code_simp

lemma ancientStamp_value: "parseTimestamp ancientStamp = Some (- 1450445355000)"
  by code_simp

lemma instant_1924: "utcInstant 1924 1 15 10 30 45 0 = - 1450445355000"
proof -
  have "MakeDate (MakeDay 1924 (1 - 1) 15) (MakeTime 10 30 45 0) = - 1450445355000"
    by code_simp
  then show ?thesis
    using MakeDate_utcInstant[where m = 1 and y = 1924 and d = 15 and h = 10 and mi = 30
        and s = 45 and ms = 0]
    by simp
qed

lemma instant_0024: "utcInstant 24 1 15 10 30 45 0 = - 61408589355000"
proof -
  have "MakeDate (MakeDay 24 (1 - 1) 15) (MakeTime 10 30 45 0) = - 61408589355000"
    by code_simp
  then show ?thesis
    using MakeDate_utcInstant[where m = 1 and y = 24 and d = 15 and h = 10 and mi = 30
        and s = 45 and ms = 0]
    by simp
qed

text \<open>
  Claim C3. The field value \<^verbatim>\<open>00240115103045\<close> has 14 digits and calendar fields in
  range: year 0024, 15 January, 10:30:45. The normalizer passes the year digits to
  \<^verbatim>\<open>Date.UTC\<close> as they are, which reads a year from 0 to 99 as 1900 plus that year: the
  result is the instant of 1924-01-15T10:30:45Z and not the instant of year 24 that the
  digits name.
\<close>

theorem year_0024_read_as_1924:
  "length (mainDigits ancientStamp) = 14 \<and> digitsAt (mainDigits ancientStamp) 0 4 = 24
   \<and> validFields 24 1 15 10 30 45 0
   \<and> parseTimestamp ancientStamp = Some (utcInstant 1924 1 15 10 30 45 0)
   \<and> parseTimestamp ancientStamp \<noteq> Some (utcInstant 24 1 15 10 30 45 0)"
  by (simp add: ancientStamp_fields ancient_valid ancientStamp_value instant_1924 instant_0024)

text \<open>
  Claim C4. The field value \<^verbatim>\<open>20240132000000\<close> has day 32, which is no day of January,
  and is parsed all the same: to the instant of 2024-02-01T00:00:00Z.
\<close>

theorem day_32_rolls_over:
  "\<not> validFields 2024 1 32 0 0 0 0
   \<and> parseTimestamp day32Stamp = Some 1706745600000
   \<and> utcInstant 2024 2 1 0 0 0 0 = 1706745600000"
  by code_simp

section \<open>Average processing time\<close>

lemma not_NA_ms: "xs @ '' ms'' \<noteq> ''N/A''"
proof
  assume "xs @ '' ms'' = ''N/A''"
  then have "last (xs @ '' ms'') = last ''N/A''" by simp
  then show False by simp
qed

lemma avgProcessingTime_not_applicable:
  "avgProcessingTime d = ''N/A'' \<longleftrightarrow>
     filter (\<lambda>run. startTime run \<noteq> None \<and> endTime run \<noteq> None) (finalFilteredRuns d) = []"
proof -
  have a: "\<And>xs ys. xs @ '' sec, '' @ ys @ '' ms'' \<noteq> ''N/A''"
    using not_NA_ms[of "xs @ '' sec, '' @ ys" for xs ys] by simp
  show ?thesis
    unfolding avgProcessingTime_def Let_def
    using not_NA_ms a by (simp del: append_assoc)
qed

text \<open>
  Claim C8. Three runs with durations 999, 1000 and 1000 ms have a mean just under one
  second, and the report is \<^verbatim>\<open>1000 ms\<close>: a residual of 1000 milliseconds. One run that
  ends 500 ms before it starts has the mean \<open>-500\<close> ms, and the report is \<^verbatim>\<open>500 ms\<close>.
\<close>

theorem residual_milliseconds_reach_1000:
  "avgProcessingTime sampleDashboard = ''1000 ms''
   \<and> avgProcessingTime backwardsDashboard = ''500 ms''"
proof -
  have "avgProcessingTime sampleDashboard = ''1000 ms''" by code_simp
  moreover have "avgProcessingTime backwardsDashboard = ''500 ms''" by code_simp
  ultimately show ?thesis by simp
qed

end
